theory Spec2Isabelle
  imports Main "HOL-Library.Sublist" "HOL-Library.AList"
begin

section \<open>Python strings\<close>

text \<open>
  Python's \<^verbatim>\<open>str\<close> is modelled by \<^typ>\<open>string\<close>: a text is kept as the bytes of
  its UTF-8 encoding, so the symbols the program prints that lie outside ASCII are spelt
  as three bytes each. Substring search and replacement on the encodings are those on
  the texts, because an encoded character never starts inside another one.
\<close>

abbreviation sq :: string where
  "sq \<equiv> [CHR 0x27]"

abbreviation nl :: string where
  "nl \<equiv> [CHR 0x0A]"

definition check_mark :: string where
  "check_mark = [CHR 0xE2, CHR 0x9C, CHR 0x93]"

definition warn_mark :: string where
  "warn_mark = [CHR 0xE2, CHR 0x9A, CHR 0xA0]"

definition cross_mark :: string where
  "cross_mark = [CHR 0xE2, CHR 0x9C, CHR 0x97]"

text \<open>\<^verbatim>\<open>sub in s\<close> on strings: plain substring search.\<close>

fun str_contains :: "string \<Rightarrow> string \<Rightarrow> bool" where
  "str_contains sub [] = (sub = [])"
| "str_contains sub (c # cs) = (prefix sub (c # cs) \<or> str_contains sub cs)"

text \<open>
  \<^verbatim>\<open>s.replace(old, new, 1)\<close>: the scan goes left to right and rewrites the first
  position at which \<open>old\<close> starts; with an empty \<open>old\<close> that is position 0.
\<close>

fun replace_first :: "string \<Rightarrow> string \<Rightarrow> string \<Rightarrow> string" where
  "replace_first old new [] = (if old = [] then new else [])"
| "replace_first old new (c # cs) =
     (if prefix old (c # cs) then new @ drop (length old) (c # cs)
      else c # replace_first old new cs)"

text \<open>\<^verbatim>\<open>s.split('/')\<close> and \<^verbatim>\<open>'/'.join(parts)\<close>.\<close>

fun split_sep :: "string \<Rightarrow> string list" where
  "split_sep [] = [[]]"
| "split_sep (c # cs) =
     (if c = CHR ''/'' then [] # split_sep cs
      else (case split_sep cs of [] \<Rightarrow> [[c]] | w # ws \<Rightarrow> (c # w) # ws))"

fun join_sep :: "string list \<Rightarrow> string" where
  "join_sep [] = []"
| "join_sep [p] = p"
| "join_sep (p # q # ps) = p @ ''/'' @ join_sep (q # ps)"

text \<open>\<^verbatim>\<open>str(n)\<close> for a counter \<open>n \<ge> 0\<close>: decimal digits, no leading zero.\<close>

definition digit_char :: "nat \<Rightarrow> char" where
  "digit_char d = char_of (48 + d)"

fun str_nat :: "nat \<Rightarrow> string" where
  "str_nat n = (if n < 10 then [digit_char n] else str_nat (n div 10) @ [digit_char (n mod 10)])"

declare str_nat.simps [simp del]

text \<open>
  \<^verbatim>\<open>s.split()\<close> cuts at runs of whitespace and yields no empty word; \<^verbatim>\<open>word.strip(chars)\<close>
  takes the given characters off both ends. The whitespace is that of
  \<^verbatim>\<open>str.isspace\<close>: the ASCII characters of \<open>is_space\<close> and, each in its UTF-8
  encoding, U+0085, U+00A0, U+1680, U+2000 to U+200A, U+2028, U+2029, U+202F, U+205F and
  U+3000. \<open>space_len\<close> is the number of bytes of the whitespace character a string
  starts with, 0 when it starts with none; the loop skips the bytes of a character it
  has recognised.
\<close>

definition is_space :: "char \<Rightarrow> bool" where
  "is_space c \<longleftrightarrow> c \<in> set [CHR '' '', CHR 0x09, CHR 0x0A, CHR 0x0B, CHR 0x0C, CHR 0x0D,
                                CHR 0x1C, CHR 0x1D, CHR 0x1E, CHR 0x1F]"

definition wide_spaces :: "string list" where
  "wide_spaces =
     [[CHR 0xC2, CHR 0x85], [CHR 0xC2, CHR 0xA0], [CHR 0xE1, CHR 0x9A, CHR 0x80]]
     @ map (\<lambda>b. [CHR 0xE2, CHR 0x80, char_of b]) [0x80 ..< 0x8B :: nat]
     @ [[CHR 0xE2, CHR 0x80, CHR 0xA8], [CHR 0xE2, CHR 0x80, CHR 0xA9],
        [CHR 0xE2, CHR 0x80, CHR 0xAF], [CHR 0xE2, CHR 0x81, CHR 0x9F],
        [CHR 0xE3, CHR 0x80, CHR 0x80]]"

definition space_len :: "string \<Rightarrow> nat" where
  "space_len s =
     (case s of
        [] \<Rightarrow> 0
      | c # cs \<Rightarrow>
          (if is_space c then 1
           else (case find (\<lambda>p. prefix p s) wide_spaces of None \<Rightarrow> 0 | Some p \<Rightarrow> length p)))"

fun split_ws_acc :: "string \<Rightarrow> nat \<Rightarrow> string \<Rightarrow> string list" where
  "split_ws_acc word skip [] = (if word = [] then [] else [word])"
| "split_ws_acc word skip (c # cs) =
     (if 0 < skip then split_ws_acc word (skip - 1) cs
      else if 0 < space_len (c # cs) then
        (if word = [] then split_ws_acc [] (space_len (c # cs) - 1) cs
         else word # split_ws_acc [] (space_len (c # cs) - 1) cs)
      else split_ws_acc (word @ [c]) 0 cs)"

definition split_ws :: "string \<Rightarrow> string list" where
  "split_ws s = split_ws_acc [] 0 s"

definition strip_chars :: "string \<Rightarrow> string \<Rightarrow> string" where
  "strip_chars chars s =
     rev (dropWhile (\<lambda>c. c \<in> set chars) (rev (dropWhile (\<lambda>c. c \<in> set chars) s)))"

text \<open>
  Text files are opened with \<^verbatim>\<open>encoding="utf-8"\<close> and the default newline handling.
  \<open>utf8_valid\<close> is the test of the strict codec: it reads the bytes from left to right,
  a lead byte fixing the ranges of the bytes that must follow it (no overlong form, no
  surrogate, nothing above U+10FFFF). Bytes that fail it make a read raise
  UnicodeDecodeError; a \<^verbatim>\<open>str\<close> that fails it holds a lone surrogate and makes a write
  raise UnicodeEncodeError. On reading, \<^verbatim>\<open>\r\n\<close> and a lone \<^verbatim>\<open>\r\<close> become \<^verbatim>\<open>\n\<close>; on
  POSIX nothing is translated on writing.
\<close>

definition utf8_lead :: "nat \<Rightarrow> (nat \<times> nat) list option" where
  "utf8_lead b =
     (if b < 0x80 then Some []
      else if 0xC2 \<le> b \<and> b \<le> 0xDF then Some [(0x80, 0xBF)]
      else if b = 0xE0 then Some [(0xA0, 0xBF), (0x80, 0xBF)]
      else if b = 0xED then Some [(0x80, 0x9F), (0x80, 0xBF)]
      else if 0xE1 \<le> b \<and> b \<le> 0xEF then Some [(0x80, 0xBF), (0x80, 0xBF)]
      else if b = 0xF0 then Some [(0x90, 0xBF), (0x80, 0xBF), (0x80, 0xBF)]
      else if 0xF1 \<le> b \<and> b \<le> 0xF3 then Some [(0x80, 0xBF), (0x80, 0xBF), (0x80, 0xBF)]
      else if b = 0xF4 then Some [(0x80, 0x8F), (0x80, 0xBF), (0x80, 0xBF)]
      else None)"

fun utf8_state :: "(nat \<times> nat) list \<Rightarrow> string \<Rightarrow> (nat \<times> nat) list option" where
  "utf8_state pending [] = Some pending"
| "utf8_state [] (c # cs) =
     (case utf8_lead (of_char c) of None \<Rightarrow> None | Some pending \<Rightarrow> utf8_state pending cs)"
| "utf8_state (r # pending) (c # cs) =
     (if fst r \<le> of_char c \<and> of_char c \<le> snd r then utf8_state pending cs else None)"

definition utf8_valid :: "string \<Rightarrow> bool" where
  "utf8_valid s \<longleftrightarrow> utf8_state [] s = Some []"

fun universal_newlines :: "string \<Rightarrow> string" where
  "universal_newlines [] = []"
| "universal_newlines [c] = (if c = CHR 0x0D then [CHR 0x0A] else [c])"
| "universal_newlines (c # d # cs) =
     (if c = CHR 0x0D then
        (if d = CHR 0x0A then CHR 0x0A # universal_newlines cs
         else CHR 0x0A # universal_newlines (d # cs))
      else c # universal_newlines (d # cs))"

section \<open>Paths as \<^verbatim>\<open>pathlib\<close> keeps them\<close>

text \<open>
  A \<^verbatim>\<open>pathlib.Path\<close> on POSIX is an anchor and a list of parts. Parsing a string drops
  empty parts and \<^verbatim>\<open>.\<close>, keeps \<^verbatim>\<open>..\<close>, and keeps a leading \<^verbatim>\<open>//\<close> apart from
  \<^verbatim>\<open>/\<close> (three or more slashes are one).
\<close>

datatype anchor = Relative | Root | DoubleRoot

datatype path = Path (anchor: anchor) (parts: "string list")

definition anchor_of :: "string \<Rightarrow> anchor" where
  "anchor_of s =
     (if prefix ''///'' s then Root
      else if prefix ''//'' s then DoubleRoot
      else if prefix ''/'' s then Root
      else Relative)"

definition parse_path :: "string \<Rightarrow> path" where
  "parse_path s = Path (anchor_of s) (filter (\<lambda>c. c \<noteq> [] \<and> c \<noteq> ''.'') (split_sep s))"

text \<open>\<^verbatim>\<open>project_dir / path\<close>: an absolute right operand replaces the left one.\<close>

definition path_join :: "path \<Rightarrow> string \<Rightarrow> path" where
  "path_join d s =
     (case parse_path s of
        Path Relative qs \<Rightarrow> Path (anchor d) (parts d @ qs)
      | Path a qs \<Rightarrow> Path a qs)"

definition path_str :: "path \<Rightarrow> string" where
  "path_str p =
     (case anchor p of
        Relative \<Rightarrow> (if parts p = [] then ''.'' else join_sep (parts p))
      | Root \<Rightarrow> ''/'' @ join_sep (parts p)
      | DoubleRoot \<Rightarrow> ''//'' @ join_sep (parts p))"

definition parent :: "path \<Rightarrow> path" where
  "parent p = Path (anchor p) (butlast (parts p))"

definition has_nul :: "path \<Rightarrow> bool" where
  "has_nul p = list_ex (\<lambda>c. CHR 0x00 \<in> set c) (parts p)"

text \<open>
  The parts of a path that \<^verbatim>\<open>pathlib\<close> built, from a string or by joining: none is
  empty, none is \<^verbatim>\<open>.\<close>, none holds a slash.
\<close>

definition pathlib_path :: "path \<Rightarrow> bool" where
  "pathlib_path p = list_all (\<lambda>c. c \<noteq> [] \<and> c \<noteq> ''.'' \<and> CHR ''/'' \<notin> set c) (parts p)"

section \<open>The file system\<close>

text \<open>
  What the operating system answers. A directory maps names to nodes; a regular file is
  a directory entry for an inode, so two entries may name one file (hard links); the
  contents, as bytes, live with the inode. A symbolic link is stored with the location
  its target resolves to: chains of links are flattened, and a link need not point at
  anything. A link whose chain never ends, because it comes back to a link it went
  through, is stored with the location of that link, so a stored target that is itself
  a symbolic link marks a loop. Locations are lists of names from the root.
\<close>

datatype node = File nat | Symlink "string list" | Dir "(string \<times> node) list"

record filesys =
  root :: "(string \<times> node) list"
  cwd :: "string list"
  data :: "nat \<Rightarrow> string"
  next_ino :: nat

text \<open>
  The exceptions of the model. \<open>ELOOP\<close> is the OSError the kernel answers with when a
  lookup goes round a loop of symbolic links (errno ELOOP); it has no class of its own.
\<close>

datatype exn =
    FileNotFoundError | NotADirectoryError | IsADirectoryError | FileExistsError | ELOOP
  | ValueError | UnicodeDecodeError | UnicodeEncodeError | RuntimeError
  | TypeError | KeyError | ValidationError | RequestException string

text \<open>The classes caught by \<^verbatim>\<open>except OSError\<close> and by \<^verbatim>\<open>except ValueError\<close>.\<close>

fun is_OSError :: "exn \<Rightarrow> bool" where
  "is_OSError FileNotFoundError = True"
| "is_OSError NotADirectoryError = True"
| "is_OSError IsADirectoryError = True"
| "is_OSError FileExistsError = True"
| "is_OSError ELOOP = True"
| "is_OSError (RequestException m) = True"
| "is_OSError e = False"

fun is_ValueError :: "exn \<Rightarrow> bool" where
  "is_ValueError ValueError = True"
| "is_ValueError UnicodeDecodeError = True"
| "is_ValueError UnicodeEncodeError = True"
| "is_ValueError ValidationError = True"
| "is_ValueError e = False"

fun lookup :: "node \<Rightarrow> string list \<Rightarrow> node option" where
  "lookup n [] = Some n"
| "lookup (Dir es) (c # cs) = (case map_of es c of None \<Rightarrow> None | Some n \<Rightarrow> lookup n cs)"
| "lookup n (c # cs) = None"

definition lstat :: "filesys \<Rightarrow> string list \<Rightarrow> node option" where
  "lstat fs l = lookup (Dir (root fs)) l"

fun put_node :: "node \<Rightarrow> string list \<Rightarrow> node \<Rightarrow> node" where
  "put_node n [] new = new"
| "put_node (Dir es) (c # cs) new =
     (case map_of es c of
        None \<Rightarrow> (if cs = [] then Dir (es @ [(c, new)]) else Dir es)
      | Some n \<Rightarrow> Dir (AList.update c (put_node n cs new) es))"
| "put_node n (c # cs) new = n"

definition add_entry :: "filesys \<Rightarrow> string list \<Rightarrow> node \<Rightarrow> filesys" where
  "add_entry fs l new =
     (case put_node (Dir (root fs)) l new of Dir es \<Rightarrow> fs\<lparr>root := es\<rparr> | n \<Rightarrow> fs)"

fun is_dir_node :: "node option \<Rightarrow> bool" where
  "is_dir_node (Some (Dir es)) = True"
| "is_dir_node n = False"

fun is_symlink :: "node option \<Rightarrow> bool" where
  "is_symlink (Some (Symlink t)) = True"
| "is_symlink n = False"

text \<open>
  Path lookup in the kernel. \<open>follow\<close> reads one entry and goes through a symbolic link;
  \<open>walk\<close> goes down the parts from a directory: every part but the last must lead to a
  directory, \<^verbatim>\<open>..\<close> is the parent of where the walk stands. The answer is the location
  reached, the node there if any, and whether the last entry was a symbolic link. A link
  that leads to a link again is a loop, and the lookup fails with \<open>ELOOP\<close>.
\<close>

definition follow :: "filesys \<Rightarrow> string list \<Rightarrow> bool \<times> string list \<times> node option" where
  "follow fs l =
     (case lstat fs l of
        Some (Symlink t) \<Rightarrow> (True, t, lstat fs t)
      | n \<Rightarrow> (False, l, n))"

fun walk :: "filesys \<Rightarrow> string list \<Rightarrow> string list \<Rightarrow> exn + (bool \<times> string list \<times> node option)" where
  "walk fs loc [] = Inr (False, loc, lstat fs loc)"
| "walk fs loc (c # cs) =
     (if c = ''..'' then walk fs (butlast loc) cs
      else (case follow fs (loc @ [c]) of
          (b, l, Some (Dir es)) \<Rightarrow> if cs = [] then Inr (b, l, Some (Dir es)) else walk fs l cs
        | (b, l, Some (File i)) \<Rightarrow> if cs = [] then Inr (b, l, Some (File i)) else Inl NotADirectoryError
        | (b, l, Some (Symlink t)) \<Rightarrow> Inl ELOOP
        | (b, l, None) \<Rightarrow> if cs = [] then Inr (b, l, None) else Inl FileNotFoundError))"

definition namei :: "filesys \<Rightarrow> path \<Rightarrow> exn + (bool \<times> string list \<times> node option)" where
  "namei fs p =
     (if has_nul p then Inl ValueError
      else (case anchor p of
          Relative \<Rightarrow>
            (if is_dir_node (lstat fs (cwd fs)) then walk fs (cwd fs) (parts p)
             else Inl FileNotFoundError)
        | a \<Rightarrow> walk fs [] (parts p)))"

text \<open>\<^verbatim>\<open>Path.exists()\<close> and \<^verbatim>\<open>Path.is_dir()\<close>: a failed \<^verbatim>\<open>stat\<close> is the answer no.\<close>

definition path_exists :: "filesys \<Rightarrow> path \<Rightarrow> bool" where
  "path_exists fs p = (case namei fs p of Inr (b, l, Some n) \<Rightarrow> True | r \<Rightarrow> False)"

definition is_dir :: "filesys \<Rightarrow> path \<Rightarrow> bool" where
  "is_dir fs p = (case namei fs p of Inr (b, l, n) \<Rightarrow> is_dir_node n | r \<Rightarrow> False)"

text \<open>
  \<^verbatim>\<open>open(p, "w", encoding="utf-8")\<close> empties the file or creates it and answers with
  its inode; \<^verbatim>\<open>f.write(content)\<close> then stores the encoded text, or raises and leaves
  the file empty when the text cannot be encoded.
\<close>

definition open_w :: "filesys \<Rightarrow> path \<Rightarrow> exn + (nat \<times> filesys)" where
  "open_w fs p =
     (case namei fs p of
        Inl e \<Rightarrow> Inl e
      | Inr (b, l, Some (File i)) \<Rightarrow> Inr (i, fs\<lparr>data := (data fs)(i := [])\<rparr>)
      | Inr (b, l, Some (Dir es)) \<Rightarrow> Inl IsADirectoryError
      | Inr (b, l, Some (Symlink t)) \<Rightarrow> Inl ELOOP
      | Inr (b, l, None) \<Rightarrow>
          (if l \<noteq> [] \<and> is_dir_node (lstat fs (butlast l))
           then Inr (next_ino fs,
                  (add_entry fs l (File (next_ino fs)))
                    \<lparr>data := (data fs)(next_ino fs := []), next_ino := Suc (next_ino fs)\<rparr>)
           else Inl FileNotFoundError))"

definition write_file :: "filesys \<Rightarrow> path \<Rightarrow> string \<Rightarrow> (exn + unit) \<times> filesys" where
  "write_file fs p content =
     (case open_w fs p of
        Inl e \<Rightarrow> (Inl e, fs)
      | Inr (i, fs1) \<Rightarrow>
          (if utf8_valid content then (Inr (), fs1\<lparr>data := (data fs1)(i := content)\<rparr>)
           else (Inl UnicodeEncodeError, fs1)))"

text \<open>\<^verbatim>\<open>os.mkdir(p)\<close>, then \<^verbatim>\<open>Path.mkdir(parents=True, exist_ok=True)\<close> as pathlib writes it.\<close>

definition os_mkdir :: "filesys \<Rightarrow> path \<Rightarrow> exn + filesys" where
  "os_mkdir fs p =
     (case namei fs p of
        Inl e \<Rightarrow> Inl e
      | Inr (b, l, Some n) \<Rightarrow> Inl FileExistsError
      | Inr (b, l, None) \<Rightarrow>
          (if b then Inl FileExistsError
           else if l \<noteq> [] \<and> is_dir_node (lstat fs (butlast l)) then Inr (add_entry fs l (Dir []))
           else Inl FileNotFoundError))"

definition mkdir_exist_ok :: "filesys \<Rightarrow> path \<Rightarrow> exn + filesys" where
  "mkdir_exist_ok fs p =
     (case os_mkdir fs p of
        Inr fs' \<Rightarrow> Inr fs'
      | Inl e \<Rightarrow>
          (if e = FileNotFoundError then Inl e
           else if is_OSError e \<and> is_dir fs p then Inr fs
           else Inl e))"

fun mkdir_parents :: "filesys \<Rightarrow> anchor \<Rightarrow> string list \<Rightarrow> exn + filesys" where
  "mkdir_parents fs a ps =
     (case os_mkdir fs (Path a ps) of
        Inr fs' \<Rightarrow> Inr fs'
      | Inl e \<Rightarrow>
          (if e = FileNotFoundError then
             (if ps = [] then Inl e
              else (case mkdir_parents fs a (butlast ps) of
                  Inl e' \<Rightarrow> Inl e'
                | Inr fs1 \<Rightarrow> mkdir_exist_ok fs1 (Path a ps)))
           else if is_OSError e \<and> is_dir fs (Path a ps) then Inr fs
           else Inl e))"

declare mkdir_parents.simps [simp del]

text \<open>
  \<^verbatim>\<open>open(p, "r", encoding="utf-8")\<close> followed by \<^verbatim>\<open>f.read()\<close>: the bytes are decoded
  and the line ends translated.
\<close>

definition read_file :: "filesys \<Rightarrow> path \<Rightarrow> exn + string" where
  "read_file fs p =
     (case namei fs p of
        Inl e \<Rightarrow> Inl e
      | Inr (b, l, Some (File i)) \<Rightarrow>
          (if utf8_valid (data fs i) then Inr (universal_newlines (data fs i))
           else Inl UnicodeDecodeError)
      | Inr (b, l, Some (Dir es)) \<Rightarrow> Inl IsADirectoryError
      | Inr (b, l, Some (Symlink t)) \<Rightarrow> Inl ELOOP
      | Inr (b, l, None) \<Rightarrow> Inl FileNotFoundError)"

text \<open>
  \<^verbatim>\<open>Path(s).resolve()\<close> in its default, non-strict mode. \<^verbatim>\<open>os.path.realpath\<close> makes the
  path absolute, replaces every symbolic link met on the way, takes \<^verbatim>\<open>..\<close> off the
  resolved part, and appends what does not exist as it stands; at a loop of links it
  gives up, joins the parts that are left to the link unresolved (\<open>lexical\<close>, the work of
  \<^verbatim>\<open>normpath\<close>) and answers that it did not succeed. \<^verbatim>\<open>resolve\<close> then calls
  \<^verbatim>\<open>stat\<close> on the result and raises RuntimeError when the kernel answers \<open>ELOOP\<close>
  (\<^verbatim>\<open>pathlib\<close> up to Python 3.12); a result that \<^verbatim>\<open>realpath\<close> resolved to the end
  holds no link, so the model makes that call after a loop only. A NUL byte makes
  \<^verbatim>\<open>lstat\<close> raise ValueError.
\<close>

fun lexical :: "string list \<Rightarrow> string list \<Rightarrow> string list" where
  "lexical p [] = p"
| "lexical p (c # cs) = (if c = ''..'' then lexical (butlast p) cs else lexical (p @ [c]) cs)"

fun realpath :: "filesys \<Rightarrow> string list \<Rightarrow> string list \<Rightarrow> string list \<times> bool" where
  "realpath fs p [] = (p, True)"
| "realpath fs p (c # cs) =
     (if c = ''..'' then realpath fs (butlast p) cs
      else (case lstat fs (p @ [c]) of
          Some (Symlink t) \<Rightarrow>
            (if is_symlink (lstat fs t) then (lexical t cs, False) else realpath fs t cs)
        | n \<Rightarrow> realpath fs (p @ [c]) cs))"

definition resolve :: "filesys \<Rightarrow> path \<Rightarrow> exn + path" where
  "resolve fs p =
     (if has_nul p then Inl ValueError
      else (case realpath fs (case anchor p of Relative \<Rightarrow> cwd fs | a \<Rightarrow> []) (parts p) of
          (s, True) \<Rightarrow> Inr (Path Root s)
        | (s, False) \<Rightarrow>
            (case walk fs [] s of
               Inl e \<Rightarrow> if e = ELOOP then Inl RuntimeError else Inr (Path Root s)
             | Inr r \<Rightarrow> Inr (Path Root s))))"

subsection \<open>Canonical locations\<close>







section \<open>Decoded JSON and the response models\<close>

text \<open>
  Decoded JSON as Python holds it, and the dynamically typed operations the program
  applies to it with a string key: \<^verbatim>\<open>key in v\<close>, \<^verbatim>\<open>v[key]\<close>, \<^verbatim>\<open>v[key] = x\<close>, truth
  value and iteration. An operation the value's type does not support raises TypeError,
  a missing dictionary key KeyError. Numbers are integers in the model.
\<close>

datatype json =
    JNull | JBool bool | JNum int | JStr string | JArr "json list" | JObj "(string \<times> json) list"

fun py_in :: "string \<Rightarrow> json \<Rightarrow> exn + bool" where
  "py_in key (JObj kvs) = Inr (map_of kvs key \<noteq> None)"
| "py_in key (JArr xs) = Inr (JStr key \<in> set xs)"
| "py_in key (JStr s) = Inr (str_contains key s)"
| "py_in key v = Inl TypeError"

fun py_getitem :: "json \<Rightarrow> string \<Rightarrow> exn + json" where
  "py_getitem (JObj kvs) key = (case map_of kvs key of None \<Rightarrow> Inl KeyError | Some v \<Rightarrow> Inr v)"
| "py_getitem v key = Inl TypeError"

fun py_setitem :: "json \<Rightarrow> string \<Rightarrow> json \<Rightarrow> exn + json" where
  "py_setitem (JObj kvs) key x = Inr (JObj (AList.update key x kvs))"
| "py_setitem v key x = Inl TypeError"

fun truthy :: "json \<Rightarrow> bool" where
  "truthy JNull = False"
| "truthy (JBool b) = b"
| "truthy (JNum n) = (n \<noteq> 0)"
| "truthy (JStr s) = (s \<noteq> [])"
| "truthy (JArr xs) = (xs \<noteq> [])"
| "truthy (JObj kvs) = (kvs \<noteq> [])"

fun py_iter :: "json \<Rightarrow> exn + json list" where
  "py_iter (JArr xs) = Inr xs"
| "py_iter (JObj kvs) = Inr (map (\<lambda>kv. JStr (fst kv)) kvs)"
| "py_iter (JStr s) = Inr (map (\<lambda>c. JStr [c]) s)"
| "py_iter v = Inl TypeError"

text \<open>
  The pydantic models of the program. A \<^verbatim>\<open>str\<close> field takes a JSON string, an optional
  list field takes a list of objects, \<^verbatim>\<open>null\<close> or nothing; keys the model does not name
  are ignored; anything else is a ValidationError.
\<close>

record FileToCreate =
  create_path :: string
  create_content :: string

record FileToEdit =
  edit_path :: string
  edit_original_snippet :: string
  edit_new_snippet :: string

record AssistantResponse =
  assistant_reply :: string
  files_to_create :: "FileToCreate list option"
  files_to_edit :: "FileToEdit list option"

fun field_str :: "json \<Rightarrow> string \<Rightarrow> string option" where
  "field_str (JObj kvs) key = (case map_of kvs key of Some (JStr s) \<Rightarrow> Some s | r \<Rightarrow> None)"
| "field_str v key = None"

definition as_FileToCreate :: "json \<Rightarrow> FileToCreate option" where
  "as_FileToCreate v =
     (case (field_str v ''path'', field_str v ''content'') of
        (Some p, Some c) \<Rightarrow> Some \<lparr>create_path = p, create_content = c\<rparr>
      | r \<Rightarrow> None)"

definition as_FileToEdit :: "json \<Rightarrow> FileToEdit option" where
  "as_FileToEdit v =
     (case (field_str v ''path'', field_str v ''original_snippet'', field_str v ''new_snippet'') of
        (Some p, Some a, Some b) \<Rightarrow>
          Some \<lparr>edit_path = p, edit_original_snippet = a, edit_new_snippet = b\<rparr>
      | r \<Rightarrow> None)"

fun all_some :: "'a option list \<Rightarrow> 'a list option" where
  "all_some [] = Some []"
| "all_some (None # xs) = None"
| "all_some (Some x # xs) = (case all_some xs of None \<Rightarrow> None | Some ys \<Rightarrow> Some (x # ys))"

definition optional_list :: "(json \<Rightarrow> 'a option) \<Rightarrow> json option \<Rightarrow> exn + 'a list option" where
  "optional_list item v =
     (case v of
        None \<Rightarrow> Inr None
      | Some JNull \<Rightarrow> Inr None
      | Some (JArr xs) \<Rightarrow>
          (case all_some (map item xs) of None \<Rightarrow> Inl ValidationError | Some ys \<Rightarrow> Inr (Some ys))
      | Some other \<Rightarrow> Inl ValidationError)"

definition make_AssistantResponse :: "json \<Rightarrow> exn + AssistantResponse" where
  "make_AssistantResponse v =
     (case v of
        JObj kvs \<Rightarrow>
          (case map_of kvs ''assistant_reply'' of
             Some (JStr reply) \<Rightarrow>
               (case optional_list as_FileToCreate (map_of kvs ''files_to_create'') of
                  Inl e \<Rightarrow> Inl e
                | Inr creates \<Rightarrow>
                    (case optional_list as_FileToEdit (map_of kvs ''files_to_edit'') of
                       Inl e \<Rightarrow> Inl e
                     | Inr edits \<Rightarrow>
                         Inr \<lparr>assistant_reply = reply, files_to_create = creates,
                              files_to_edit = edits\<rparr>))
           | r \<Rightarrow> Inl ValidationError)
      | other \<Rightarrow> Inl TypeError)"

text \<open>
  \<^verbatim>\<open>str(e)\<close> is the text of the library that raised; the model keeps the text of a
  transport error and the class name otherwise.
\<close>

fun str_exn :: "exn \<Rightarrow> string" where
  "str_exn (RequestException text) = text"
| "str_exn FileNotFoundError = ''FileNotFoundError''"
| "str_exn NotADirectoryError = ''NotADirectoryError''"
| "str_exn IsADirectoryError = ''IsADirectoryError''"
| "str_exn FileExistsError = ''FileExistsError''"
| "str_exn ELOOP = ''OSError''"
| "str_exn ValueError = ''ValueError''"
| "str_exn UnicodeDecodeError = ''UnicodeDecodeError''"
| "str_exn UnicodeEncodeError = ''UnicodeEncodeError''"
| "str_exn RuntimeError = ''RuntimeError''"
| "str_exn TypeError = ''TypeError''"
| "str_exn KeyError = ''KeyError''"
| "str_exn ValidationError = ''ValidationError''"

section \<open>The program\<close>

datatype role = System | User | Assistant

record message =
  role :: role
  content :: string

datatype out_item = Print string | PrintInline string | Panel string string

record world =
  disk :: filesys
  conversation_history :: "message list"
  console :: "out_item list"

definition say :: "out_item list \<Rightarrow> world \<Rightarrow> world" where
  "say xs w = w\<lparr>console := console w @ xs\<rparr>"

definition append_message :: "role \<Rightarrow> string \<Rightarrow> world \<Rightarrow> world" where
  "append_message r c w =
     w\<lparr>conversation_history := conversation_history w @ [\<lparr>role = r, content = c\<rparr>]\<rparr>"

text \<open>
  \<^verbatim>\<open>read_local_file\<close> is called with a \<^verbatim>\<open>str\<close> and with a \<^verbatim>\<open>Path\<close>; \<^verbatim>\<open>open\<close> hands
  either to the kernel, which splits a string at the slashes as \<open>parse_path\<close> does.
\<close>

definition read_local_file :: "filesys \<Rightarrow> path \<Rightarrow> exn + string" where
  "read_local_file fs file_path = read_file fs file_path"

definition normalize_path :: "filesys \<Rightarrow> string \<Rightarrow> exn + string" where
  "normalize_path fs path_str' =
     (case resolve fs (parse_path path_str') of
        Inl e \<Rightarrow> Inl e
      | Inr p \<Rightarrow> Inr (path_str p))"

definition file_marker :: "string \<Rightarrow> string" where
  "file_marker normalized_path = ''Content of file '' @ sq @ normalized_path @ sq"

definition create_file :: "string \<Rightarrow> string \<Rightarrow> path \<Rightarrow> world \<Rightarrow> (exn + unit) \<times> world" where
  "create_file path' content' project_dir w =
     (let file_path = path_join project_dir path' in
      case mkdir_parents (disk w) (anchor (parent file_path)) (parts (parent file_path)) of
        Inl e \<Rightarrow> (Inl e, w)
      | Inr fs1 \<Rightarrow>
          (case write_file fs1 file_path content' of
             (Inl e, fs2) \<Rightarrow> (Inl e, w\<lparr>disk := fs2\<rparr>)
           | (Inr u, fs2) \<Rightarrow>
               (let w1 = append_message Assistant
                           (check_mark @ '' Created/updated file at '' @ sq @ path_str file_path @ sq)
                           (say [Print (''[green]'' @ check_mark @ ''[/green] Created/updated file at ''
                                        @ sq @ ''[cyan]'' @ path_str file_path @ ''[/cyan]'' @ sq)]
                              (w\<lparr>disk := fs2\<rparr>))
                in case normalize_path fs2 (path_str file_path) of
                     Inl e \<Rightarrow> (Inl e, w1)
                   | Inr normalized_path \<Rightarrow>
                       (Inr (), append_message System
                                  (file_marker normalized_path @ '':'' @ nl @ nl @ content') w1))))"

definition apply_diff_edit ::
  "string \<Rightarrow> string \<Rightarrow> string \<Rightarrow> path \<Rightarrow> world \<Rightarrow> (exn + unit) \<times> world" where
  "apply_diff_edit path' original_snippet new_snippet project_dir w =
     (let file_path = path_join project_dir path';
          not_found = (\<lambda>w'. (Inr (), say [Print (''[red]'' @ cross_mark @ ''[/red] ''
                               @ ''File not found for diff editing: '' @ path_str file_path)] w'))
      in case read_local_file (disk w) file_path of
           Inl e \<Rightarrow> (if e = FileNotFoundError then not_found w else (Inl e, w))
         | Inr content' \<Rightarrow>
             (if str_contains original_snippet content' then
                (let updated_content = replace_first original_snippet new_snippet content' in
                 case create_file path' updated_content project_dir w of
                   (Inl e, w1) \<Rightarrow> (if e = FileNotFoundError then not_found w1 else (Inl e, w1))
                 | (Inr u, w1) \<Rightarrow>
                     (Inr (), append_message Assistant
                                (check_mark @ '' Applied diff edit to '' @ sq @ path_str file_path @ sq)
                                (say [Print (''[green]'' @ check_mark @ ''[/green] Applied diff edit to ''
                                             @ sq @ ''[cyan]'' @ path_str file_path @ ''[/cyan]'' @ sq)] w1)))
              else
                (Inr (), say [Print (''[yellow]'' @ warn_mark @ ''[/yellow] Original snippet not found in ''
                                     @ sq @ ''[cyan]'' @ path_str file_path @ ''[/cyan]'' @ sq
                                     @ ''. No changes made.''),
                              Print (nl @ ''Expected snippet:''),
                              Panel original_snippet ''Expected'',
                              Print (nl @ ''Actual file content:''),
                              Panel content' ''Actual''] w)))"

definition ensure_file_in_context :: "string \<Rightarrow> world \<Rightarrow> (exn + bool) \<times> world" where
  "ensure_file_in_context file_path w =
     (let failed = (\<lambda>e. if is_OSError e
                         then (Inr False, say [Print (''[red]'' @ cross_mark @ ''[/red] ''
                                 @ ''Could not read file '' @ sq @ file_path @ sq
                                 @ '' for editing context'')] w)
                         else (Inl e, w))
      in case normalize_path (disk w) file_path of
           Inl e \<Rightarrow> failed e
         | Inr normalized_path \<Rightarrow>
             (case read_local_file (disk w) (parse_path normalized_path) of
                Inl e \<Rightarrow> failed e
              | Inr content' \<Rightarrow>
                  (if \<not> list_ex (\<lambda>msg. str_contains (file_marker normalized_path) (content msg))
                          (conversation_history w)
                   then (Inr True, append_message System
                                     (file_marker normalized_path @ '':'' @ nl @ nl @ content') w)
                   else (Inr True, w))))"

definition recognized_extensions :: "string list" where
  "recognized_extensions = [''.css'', ''.html'', ''.js'', ''.py'', ''.json'', ''.md'']"

text \<open>
  \<open>guess_files\<close> is the loop of \<open>guess_files_in_message\<close> over the words; its handler
  catches OSError and ValueError, so the RuntimeError of a loop of links leaves it.
\<close>

fun guess_files :: "filesys \<Rightarrow> string list \<Rightarrow> exn + string list" where
  "guess_files fs [] = Inr []"
| "guess_files fs (word # ws) =
     (if list_ex (\<lambda>ext. str_contains ext word) recognized_extensions \<or> str_contains ''/'' word
      then (case normalize_path fs (strip_chars [CHR 0x27, CHR '','', CHR 0x22] word) of
              Inl e \<Rightarrow> (if is_OSError e \<or> is_ValueError e then guess_files fs ws else Inl e)
            | Inr normalized_path \<Rightarrow>
                (case guess_files fs ws of
                   Inl e \<Rightarrow> Inl e
                 | Inr potential_paths \<Rightarrow> Inr (normalized_path # potential_paths)))
      else guess_files fs ws)"

definition guess_files_in_message :: "filesys \<Rightarrow> string \<Rightarrow> exn + string list" where
  "guess_files_in_message fs user_message = guess_files fs (split_ws user_message)"

text \<open>
  The first loop of \<open>stream_openai_response\<close>: read every guessed file, remember it in
  \<^verbatim>\<open>valid_files\<close> and put its content into the history unless a message already holds
  the marker. An OSError skips the file; any other exception leaves the function.
\<close>

fun preload :: "string list \<Rightarrow> (string \<times> string) list \<Rightarrow> world \<Rightarrow>
    (exn + (string \<times> string) list) \<times> world" where
  "preload [] valid_files w = (Inr valid_files, w)"
| "preload (p # ps) valid_files w =
     (case read_local_file (disk w) (parse_path p) of
        Inl e \<Rightarrow>
          (if is_OSError e
           then preload ps valid_files
                  (say [Print (''[red]'' @ cross_mark @ ''[/red] '' @ ''Cannot proceed: File ''
                               @ sq @ p @ sq @ '' does not exist or is not accessible'')] w)
           else (Inl e, w))
      | Inr content' \<Rightarrow>
          preload ps (AList.update p content' valid_files)
            (if \<not> list_ex (\<lambda>msg. str_contains (file_marker p) (content msg))
                    (conversation_history w)
             then append_message System (file_marker p @ '':'' @ nl @ nl @ content') w
             else w))"

text \<open>
  The loop over the streamed lines: an empty line and a line that is not JSON are
  skipped, a chunk with \<^verbatim>\<open>message.content\<close> is appended to the buffer and printed.
\<close>

fun consume :: "(string \<Rightarrow> json option) \<Rightarrow> string list \<Rightarrow> string \<Rightarrow> world \<Rightarrow>
    (exn + string) \<times> world" where
  "consume json_loads [] full_content w = (Inr full_content, w)"
| "consume json_loads (line # rest) full_content w =
     (if line = [] then consume json_loads rest full_content w
      else (case json_loads line of
          None \<Rightarrow> consume json_loads rest full_content w
        | Some chunk \<Rightarrow>
            (case py_in ''message'' chunk of
               Inl e \<Rightarrow> (Inl e, w)
             | Inr False \<Rightarrow> consume json_loads rest full_content w
             | Inr True \<Rightarrow>
                 (case py_getitem chunk ''message'' of
                    Inl e \<Rightarrow> (Inl e, w)
                  | Inr m \<Rightarrow>
                      (case py_in ''content'' m of
                         Inl e \<Rightarrow> (Inl e, w)
                       | Inr False \<Rightarrow> consume json_loads rest full_content w
                       | Inr True \<Rightarrow>
                           (case py_getitem m ''content'' of
                              Inl e \<Rightarrow> (Inl e, w)
                            | Inr (JStr content_chunk) \<Rightarrow>
                                consume json_loads rest (full_content @ content_chunk)
                                  (say [PrintInline content_chunk] w)
                            | Inr other \<Rightarrow> (Inl TypeError, w)))))))"

text \<open>
  The loop over the proposed edits. The handler of the loop catches OSError and
  ValueError only, so a missing \<^verbatim>\<open>path\<close> key (KeyError) or a path that is not a string
  (TypeError) leaves the loop.
\<close>

fun validate_edits :: "json list \<Rightarrow> (string \<times> string) list \<Rightarrow> json list \<Rightarrow> world \<Rightarrow>
    (exn + json list) \<times> world" where
  "validate_edits [] valid_files new_files_to_edit w = (Inr new_files_to_edit, w)"
| "validate_edits (edit # rest) valid_files new_files_to_edit w =
     (let skip = (\<lambda>p e w'. if is_OSError e \<or> is_ValueError e
                     then validate_edits rest valid_files new_files_to_edit
                            (say [Print (''[yellow]'' @ warn_mark @ ''[/yellow] Skipping invalid path: ''
                                         @ sq @ p @ sq)] w')
                     else (Inl e, w'));
          keep = (\<lambda>edit_abs_path w'.
                     case py_setitem edit ''path'' (JStr edit_abs_path) of
                       Inl e \<Rightarrow> (Inl e, w')
                     | Inr edit' \<Rightarrow>
                         validate_edits rest valid_files (new_files_to_edit @ [edit']) w')
      in case py_getitem edit ''path'' of
           Inl e \<Rightarrow> (Inl e, w)
         | Inr (JStr p) \<Rightarrow>
             (case normalize_path (disk w) p of
                Inl e \<Rightarrow> skip p e w
              | Inr edit_abs_path \<Rightarrow>
                  (if map_of valid_files edit_abs_path \<noteq> None then keep edit_abs_path w
                   else (case ensure_file_in_context edit_abs_path w of
                       (Inl e, w') \<Rightarrow> skip p e w'
                     | (Inr True, w') \<Rightarrow> keep edit_abs_path w'
                     | (Inr False, w') \<Rightarrow>
                         validate_edits rest valid_files new_files_to_edit w')))
         | Inr other \<Rightarrow> (Inl TypeError, w))"

text \<open>
  Lines 402 to 427: default the reply, filter the edits, build the response object.
\<close>

definition parse_response :: "json \<Rightarrow> (string \<times> string) list \<Rightarrow> world \<Rightarrow>
    (exn + AssistantResponse) \<times> world" where
  "parse_response parsed_response valid_files w =
     (case py_in ''assistant_reply'' parsed_response of
        Inl e \<Rightarrow> (Inl e, w)
      | Inr has_reply \<Rightarrow>
          (case (if has_reply then Inr parsed_response
                 else py_setitem parsed_response ''assistant_reply'' (JStr [])) of
             Inl e \<Rightarrow> (Inl e, w)
           | Inr parsed1 \<Rightarrow>
               (let build = (\<lambda>parsed2 w'. case make_AssistantResponse parsed2 of
                                Inl e \<Rightarrow> (Inl e, w')
                              | Inr response_obj \<Rightarrow> (Inr response_obj, w'))
                in case py_in ''files_to_edit'' parsed1 of
                     Inl e \<Rightarrow> (Inl e, w)
                   | Inr False \<Rightarrow> build parsed1 w
                   | Inr True \<Rightarrow>
                       (case py_getitem parsed1 ''files_to_edit'' of
                          Inl e \<Rightarrow> (Inl e, w)
                        | Inr proposed \<Rightarrow>
                            (if \<not> truthy proposed then build parsed1 w
                             else (case py_iter proposed of
                                 Inl e \<Rightarrow> (Inl e, w)
                               | Inr edits \<Rightarrow>
                                   (case validate_edits edits valid_files [] w of
                                      (Inl e, w') \<Rightarrow> (Inl e, w')
                                    | (Inr new_files_to_edit, w') \<Rightarrow>
                                        (case py_setitem parsed1 ''files_to_edit''
                                                (JArr new_files_to_edit) of
                                           Inl e \<Rightarrow> (Inl e, w')
                                         | Inr parsed2 \<Rightarrow> build parsed2 w'))))))))"

text \<open>
  What the backend does with one request: the request fails, or lines arrive and the
  stream ends, normally or with an exception.
\<close>

datatype reply = Refused exn | Streamed "string list" "exn option"

definition api_error :: "exn \<Rightarrow> world \<Rightarrow> AssistantResponse \<times> world" where
  "api_error e w =
     (\<lparr>assistant_reply = ''Ollama API error: '' @ str_exn e,
       files_to_create = Some [], files_to_edit = None\<rparr>,
      say [Print (nl @ ''[red]'' @ cross_mark @ ''[/red] '' @ ''Ollama API error: '' @ str_exn e)] w)"

definition respond :: "(string \<Rightarrow> json option) \<Rightarrow> reply \<Rightarrow> (string \<times> string) list \<Rightarrow> world \<Rightarrow>
    AssistantResponse \<times> world" where
  "respond json_loads backend valid_files w =
     (case backend of
        Refused e \<Rightarrow> api_error e w
      | Streamed lines broken \<Rightarrow>
          (case consume json_loads lines [] (say [PrintInline (nl @ ''Assistant> '')] w) of
             (Inl e, w1) \<Rightarrow> api_error e w1
           | (Inr full_content, w1) \<Rightarrow>
               (case broken of
                  Some e \<Rightarrow> api_error e w1
                | None \<Rightarrow>
                    (case json_loads full_content of
                       None \<Rightarrow>
                         (\<lparr>assistant_reply = ''Failed to parse JSON response from assistant'',
                           files_to_create = Some [], files_to_edit = None\<rparr>,
                          say [Print [], Print (''[red]'' @ cross_mark @ ''[/red] ''
                                 @ ''Failed to parse JSON response from assistant'')] w1)
                     | Some parsed_response \<Rightarrow>
                         (case parse_response parsed_response valid_files (say [Print []] w1) of
                            (Inl e, w2) \<Rightarrow> api_error e w2
                          | (Inr response_obj, w2) \<Rightarrow>
                              (response_obj,
                               append_message Assistant (assistant_reply response_obj) w2))))))"

definition stream_openai_response ::
  "(string \<Rightarrow> json option) \<Rightarrow> reply \<Rightarrow> string \<Rightarrow> world \<Rightarrow> (exn + AssistantResponse) \<times> world" where
  "stream_openai_response json_loads backend user_message w =
     (case guess_files_in_message (disk w) user_message of
        Inl e \<Rightarrow> (Inl e, w)
      | Inr potential_paths \<Rightarrow>
          (case preload potential_paths [] w of
             (Inl e, w1) \<Rightarrow> (Inl e, w1)
           | (Inr valid_files, w1) \<Rightarrow>
               (case respond json_loads backend valid_files (append_message User user_message w1) of
                  (response_obj, w2) \<Rightarrow> (Inr response_obj, w2))))"

text \<open>
  \<^verbatim>\<open>get_unique_project_dir\<close>: the probing loop stops at the first name that does not
  exist; a run that never stops is the value \<open>None\<close>.
\<close>

partial_function (option) probe :: "filesys \<Rightarrow> path \<Rightarrow> string \<Rightarrow> nat \<Rightarrow> string option" where
  "probe fs projects_dir base_name counter =
     (if path_exists fs (path_join projects_dir (base_name @ ''-'' @ str_nat counter))
      then probe fs projects_dir base_name (counter + 1)
      else Some (base_name @ ''-'' @ str_nat counter))"

definition get_unique_project_dir :: "filesys \<Rightarrow> string \<Rightarrow> path \<Rightarrow> string option" where
  "get_unique_project_dir fs base_name projects_dir =
     (if \<not> path_exists fs (path_join projects_dir base_name) then Some base_name
      else probe fs projects_dir base_name 1)"

section \<open>The properties in the words of the specification\<close>

text \<open>
  What \<^verbatim>\<open>main\<close> iterates over: \<^verbatim>\<open>if response_data.files_to_edit:\<close> takes \<^verbatim>\<open>None\<close>
  and the empty list alike.
\<close>

definition entries :: "'a list option \<Rightarrow> 'a list" where
  "entries xs = (case xs of None \<Rightarrow> [] | Some ys \<Rightarrow> ys)"

text \<open>
  The admission rule of the edit filter in the words of the specification: an edit is
  admissible when its path canonicalizes and the canonical path is among the files read
  this turn or can be read now; the admitted edit carries the canonical path.
\<close>

definition readable :: "filesys \<Rightarrow> string \<Rightarrow> bool" where
  "readable fs p =
     (case normalize_path fs p of
        Inl e \<Rightarrow> False
      | Inr n \<Rightarrow> (case read_local_file fs (parse_path n) of Inl e \<Rightarrow> False | Inr c \<Rightarrow> True))"

definition admitted :: "filesys \<Rightarrow> (string \<times> string) list \<Rightarrow> string \<Rightarrow> string option" where
  "admitted fs valid_files p =
     (case normalize_path fs p of
        Inl e \<Rightarrow> None
      | Inr canonical_path \<Rightarrow>
          (if map_of valid_files canonical_path \<noteq> None \<or> readable fs canonical_path
           then Some canonical_path else None))"

fun admit_edit :: "filesys \<Rightarrow> (string \<times> string) list \<Rightarrow> json \<Rightarrow> json option" where
  "admit_edit fs valid_files (JObj kvs) =
     (case map_of kvs ''path'' of
        Some (JStr p) \<Rightarrow>
          (case admitted fs valid_files p of
             None \<Rightarrow> None
           | Some canonical_path \<Rightarrow> Some (JObj (AList.update ''path'' (JStr canonical_path) kvs)))
      | other \<Rightarrow> None)"
| "admit_edit fs valid_files v = None"

definition admit_record ::
  "filesys \<Rightarrow> (string \<times> string) list \<Rightarrow> FileToEdit \<Rightarrow> FileToEdit option" where
  "admit_record fs valid_files edit =
     (case admitted fs valid_files (edit_path edit) of
        None \<Rightarrow> None
      | Some canonical_path \<Rightarrow> Some (edit\<lparr>edit_path := canonical_path\<rparr>))"

text \<open>
  The proposals that end the loop, and with it the response: one that holds no string
  under \<^verbatim>\<open>path\<close> (KeyError or TypeError), and one whose path leads into a loop of
  symbolic links, so that canonicalizing it raises RuntimeError, which the handler of
  the loop does not catch.
\<close>

definition aborts :: "filesys \<Rightarrow> (string \<times> string) list \<Rightarrow> json \<Rightarrow> bool" where
  "aborts fs valid_files edit =
     (case field_str edit ''path'' of
        None \<Rightarrow> True
      | Some p \<Rightarrow>
          (case normalize_path fs p of
             Inl e \<Rightarrow> e = RuntimeError
           | Inr canonical_path \<Rightarrow>
               map_of valid_files canonical_path = None \<and>
               normalize_path fs canonical_path = Inl RuntimeError))"

definition with_reply :: "(string \<times> json) list \<Rightarrow> (string \<times> json) list" where
  "with_reply kvs =
     (if map_of kvs ''assistant_reply'' = None then AList.update ''assistant_reply'' (JStr []) kvs
      else kvs)"

definition skip_warning :: "string \<Rightarrow> out_item" where
  "skip_warning p =
     Print (''[yellow]'' @ warn_mark @ ''[/yellow] Skipping invalid path: '' @ sq @ p @ sq)"

definition says_more :: "world \<Rightarrow> world \<Rightarrow> bool" where
  "says_more w w' \<longleftrightarrow> (\<exists>xs. console w' = console w @ xs)"

definition grows_by_system :: "world \<Rightarrow> world \<Rightarrow> bool" where
  "grows_by_system w w' \<longleftrightarrow>
     disk w' = disk w \<and>
     (\<exists>ms. conversation_history w' = conversation_history w @ ms \<and>
           list_all (\<lambda>m. role m = System) ms)"

text \<open>
  The dedup discipline of the history. \<open>frame p c\<close> is the content message of the file
  at canonical path \<open>p\<close>; a message carries the marker of \<open>p\<close> when the marker text
  occurs in it, which is the test the program makes. A list of appended messages is
  fresh over a history \<open>h\<close> for the loaded files \<open>(q, c)\<close>, in order, when its system
  messages are the frames of these files, one each, every \<open>c\<close> is what the file at \<open>q\<close>
  reads as, and the marker of \<open>q\<close> is in no message before its frame, in \<open>h\<close> or
  appended.
\<close>

definition frame :: "string \<Rightarrow> string \<Rightarrow> message" where
  "frame p c = \<lparr>role = System, content = file_marker p @ '':'' @ nl @ nl @ c\<rparr>"

definition carries_marker :: "string \<Rightarrow> message \<Rightarrow> bool" where
  "carries_marker p m = str_contains (file_marker p) (content m)"

fun fresh_frames ::
  "filesys \<Rightarrow> message list \<Rightarrow> message list \<Rightarrow> (string \<times> string) list \<Rightarrow> bool" where
  "fresh_frames fs h [] loaded = (loaded = [])"
| "fresh_frames fs h (m # ms) loaded =
     (if role m = System then
        (case loaded of
           [] \<Rightarrow> False
         | (q, c) # rest \<Rightarrow>
             m = frame q c \<and> read_local_file fs (parse_path q) = Inr c \<and>
             \<not> list_ex (carries_marker q) h \<and> fresh_frames fs (h @ [m]) ms rest)
      else fresh_frames fs (h @ [m]) ms loaded)"

definition adds_fresh :: "world \<Rightarrow> world \<Rightarrow> (string \<times> string) list \<Rightarrow> bool" where
  "adds_fresh w w' loaded \<longleftrightarrow>
     disk w' = disk w \<and>
     prefix (conversation_history w) (conversation_history w') \<and>
     fresh_frames (disk w) (conversation_history w)
       (drop (length (conversation_history w)) (conversation_history w')) loaded"

text \<open>
  The steps that load files: the disk is untouched and what they append is fresh for
  some loaded files, every one at a canonical path, a value of \<open>normalize_path\<close>.
\<close>

definition loads_canonical :: "world \<Rightarrow> world \<Rightarrow> bool" where
  "loads_canonical w w' \<longleftrightarrow>
     (\<exists>loaded. adds_fresh w w' loaded \<and>
        (\<forall>q \<in> set (map fst loaded). \<exists>raw. normalize_path (disk w) raw = Inr q))"

section \<open>Concrete states for the examples\<close>

definition demo_fs :: filesys where
  "demo_fs =
     \<lparr>root = [(''home'', Dir [(''u'', Dir
                [(''projects'', Dir [(''demo'', Dir [(''app.py'', File 1)])]),
                 (''notes.md'', File 2)])]),
              (''tmp'', Dir [])],
      cwd = [''home'', ''u''],
      data = (\<lambda>i. if i = 1 then ''x = 1; x = 1'' else if i = 2 then ''todo'' else []),
      next_ino = 3\<rparr>"

definition demo_world :: world where
  "demo_world =
     \<lparr>disk = demo_fs,
      conversation_history = [\<lparr>role = System, content = ''You are an elite software engineer''\<rparr>],
      console = []\<rparr>"

definition demo_dir :: path where
  "demo_dir = Path Relative [''projects'', ''demo'']"

text \<open>A file with the line ends of another system: \<^verbatim>\<open>a\r\nb\r\nb\<close>.\<close>

definition crlf_text :: string where
  "crlf_text = ''a'' @ [CHR 0x0D, CHR 0x0A] @ ''b'' @ [CHR 0x0D, CHR 0x0A] @ ''b''"

definition crlf_world :: world where
  "crlf_world =
     \<lparr>disk = \<lparr>root = [(''home'', Dir [(''u'', Dir
                        [(''projects'', Dir [(''demo'', Dir [(''win.txt'', File 1)])])])])],
               cwd = [''home'', ''u''],
               data = (\<lambda>i. if i = 1 then crlf_text else []),
               next_ino = 2\<rparr>,
      conversation_history = [],
      console = []\<rparr>"

definition projects_fs :: "(string \<times> node) list \<Rightarrow> filesys" where
  "projects_fs es =
     \<lparr>root = [(''home'', Dir [(''u'', Dir [(''projects'', Dir es)])])],
      cwd = [''home'', ''u''],
      data = (\<lambda>i. []),
      next_ino = 1\<rparr>"


text \<open>The demo tree with \<^verbatim>\<open>/home/u/loop\<close>, a symbolic link to itself.\<close>

definition loop_world :: world where
  "loop_world =
     \<lparr>disk = \<lparr>root = [(''home'', Dir [(''u'', Dir
                        [(''projects'', Dir [(''demo'', Dir [(''app.py'', File 1)])]),
                         (''loop'', Symlink [''home'', ''u'', ''loop''])])])],
               cwd = [''home'', ''u''],
               data = (\<lambda>i. if i = 1 then ''x = 1; x = 1'' else []),
               next_ino = 2\<rparr>,
      conversation_history = [],
      console = []\<rparr>"

definition demo_loads :: "string \<Rightarrow> json option" where
  "demo_loads s =
     (if s = ''chunk: oops'' then Some (JObj [(''message'', JObj [(''content'', JStr ''oops'')])])
      else if s = ''chunk: [1]'' then Some (JObj [(''message'', JObj [(''content'', JStr ''[1]'')])])
      else if s = ''[1]'' then Some (JArr [JNum 1])
      else if s = ''chunk: edits'' then Some (JObj [(''message'', JObj [(''content'', JStr ''edits'')])])
      else if s = ''edits'' then
        Some (JObj [(''assistant_reply'', JStr ''done''),
                    (''files_to_edit'', JArr
                       [JObj [(''path'', JStr ''projects/demo/app.py''),
                              (''original_snippet'', JStr ''x''), (''new_snippet'', JStr ''y'')],
                        JObj [(''path'', JStr ''projects/demo/nope.py''),
                              (''original_snippet'', JStr ''x''), (''new_snippet'', JStr ''y'')],
                        JObj [(''path'', JStr [CHR ''a'', CHR 0x00]),
                              (''original_snippet'', JStr ''x''), (''new_snippet'', JStr ''y'')]])])
      else if s = ''chunk: loopy'' then Some (JObj [(''message'', JObj [(''content'', JStr ''loopy'')])])
      else if s = ''loopy'' then
        Some (JObj [(''assistant_reply'', JStr ''done''),
                    (''files_to_edit'', JArr
                       [JObj [(''path'', JStr ''projects/demo/app.py''),
                              (''original_snippet'', JStr ''x''), (''new_snippet'', JStr ''y'')],
                        JObj [(''path'', JStr ''loop''),
                              (''original_snippet'', JStr ''x''), (''new_snippet'', JStr ''y'')]])])
      else if s = ''chunk: 7'' then Some (JObj [(''message'', JObj [(''content'', JNum 7)])])
      else if s = ''chunk: broken'' then Some (JObj [(''message'', JObj [(''content'', JStr ''broken'')])])
      else if s = ''broken'' then
        Some (JObj [(''assistant_reply'', JStr ''fixing''),
                    (''files_to_edit'', JArr
                       [JObj [(''path'', JStr ''projects/demo/app.py''),
                              (''original_snippet'', JStr ''x''), (''new_snippet'', JStr ''y'')],
                        JObj [(''original_snippet'', JStr ''x''), (''new_snippet'', JStr ''y'')]])])
      else None)"

definition demo_edits :: "json list" where
  "demo_edits =
     [JObj [(''path'', JStr ''projects/demo/app.py''),
            (''original_snippet'', JStr ''x''), (''new_snippet'', JStr ''y'')],
      JObj [(''path'', JStr ''projects/demo/nope.py''),
            (''original_snippet'', JStr ''x''), (''new_snippet'', JStr ''y'')],
      JObj [(''path'', JStr [CHR ''a'', CHR 0x00]),
            (''original_snippet'', JStr ''x''), (''new_snippet'', JStr ''y'')]]"

definition demo_broken_edits :: "json list" where
  "demo_broken_edits =
     [JObj [(''path'', JStr ''projects/demo/app.py''),
            (''original_snippet'', JStr ''x''), (''new_snippet'', JStr ''y'')],
      JObj [(''original_snippet'', JStr ''x''), (''new_snippet'', JStr ''y'')]]"

definition demo_response :: json where
  "demo_response = JObj [(''assistant_reply'', JStr ''done''), (''files_to_edit'', JArr demo_edits)]"

definition demo_w0 :: world where
  "demo_w0 = say [PrintInline (nl @ ''Assistant> '')] (append_message User ''hello'' demo_world)"

definition demo_turn :: "reply \<Rightarrow> (exn + AssistantResponse) \<times> world" where
  "demo_turn backend = stream_openai_response demo_loads backend ''hello'' demo_world"

definition demo_parsed :: "string \<Rightarrow> (exn + AssistantResponse) \<times> world" where
  "demo_parsed line =
     (case fst (consume demo_loads [line] [] demo_w0) of
        Inl e \<Rightarrow> (Inl e, demo_w0)
      | Inr full_content \<Rightarrow>
          (case demo_loads full_content of
             None \<Rightarrow> (Inl ValueError, demo_w0)
           | Some parsed \<Rightarrow>
               parse_response parsed [] (say [Print []] (snd (consume demo_loads [line] [] demo_w0)))))"

section \<open>Substring search and first-occurrence replacement\<close>

lemma str_contains_iff: "str_contains sub s \<longleftrightarrow> (\<exists>pre post. s = pre @ sub @ post)"
proof (induction s)
  case Nil
  then show ?case by auto
next
  case (Cons c cs)
  show ?case
  proof
    assume "str_contains sub (c # cs)"
    then consider "prefix sub (c # cs)" | "str_contains sub cs" by auto
    then show "\<exists>pre post. c # cs = pre @ sub @ post"
    proof cases
      case 1
      then obtain post where "c # cs = sub @ post" by (auto simp: prefix_def)
      then have "c # cs = [] @ sub @ post" by simp
      then show ?thesis by blast
    next
      case 2
      with Cons.IH obtain pre post where "cs = pre @ sub @ post" by blast
      then have "c # cs = (c # pre) @ sub @ post" by simp
      then show ?thesis by blast
    qed
  next
    assume "\<exists>pre post. c # cs = pre @ sub @ post"
    then obtain pre post where eq: "c # cs = pre @ sub @ post" by blast
    show "str_contains sub (c # cs)"
    proof (cases pre)
      case Nil
      with eq have "prefix sub (c # cs)" by (simp add: prefix_def)
      then show ?thesis by simp
    next
      case (Cons a pre')
      with eq have "cs = pre' @ sub @ post" by simp
      with Cons.IH have "str_contains sub cs" by blast
      then show ?thesis by simp
    qed
  qed
qed

lemma replace_first_prefix:
  "prefix old s \<Longrightarrow> replace_first old new s = new @ drop (length old) s"
  by (cases s) auto

lemma replace_first_leftmost:
  assumes "s = pre @ old @ post"
    and "\<And>pre' post'. s = pre' @ old @ post' \<Longrightarrow> length pre \<le> length pre'"
  shows "replace_first old new s = pre @ new @ post"
  using assms
proof (induction pre arbitrary: s)
  case Nil
  then show ?case by (simp add: replace_first_prefix)
next
  case (Cons a pre)
  have s: "s = a # (pre @ old @ post)" using Cons.prems(1) by simp
  have np: "\<not> prefix old s"
  proof
    assume "prefix old s"
    then obtain post' where "s = [] @ old @ post'" by (auto simp: prefix_def)
    from Cons.prems(2)[OF this] show False by simp
  qed
  have "replace_first old new (pre @ old @ post) = pre @ new @ post"
  proof (rule Cons.IH[OF refl])
    fix pre' post'
    assume "pre @ old @ post = pre' @ old @ post'"
    then have "s = (a # pre') @ old @ post'" using s by simp
    from Cons.prems(2)[OF this] show "length pre \<le> length pre'" by simp
  qed
  with np s show ?case by simp
qed

lemma replace_first_empty: "replace_first [] new s = new @ s"
  by (cases s) auto

lemma str_contains_empty: "str_contains [] s"
  by (cases s) auto

section \<open>Text files\<close>

lemma utf8_state_append:
  "utf8_state p (a @ b) = (case utf8_state p a of None \<Rightarrow> None | Some q \<Rightarrow> utf8_state q b)"
  by (induction p a rule: utf8_state.induct) (auto split: option.splits)

lemma utf8_lead_conts:
  "utf8_lead b = Some q \<Longrightarrow> \<forall>r \<in> set q. 0x80 \<le> fst r \<and> snd r \<le> 0xBF"
  by (auto simp: utf8_lead_def split: if_splits)

lemma utf8_lead_byte: "utf8_lead b = Some q \<Longrightarrow> b < 0x80 \<or> 0xC2 \<le> b"
  by (auto simp: utf8_lead_def split: if_splits)

lemma utf8_state_conts:
  "utf8_state p s = Some q \<Longrightarrow> \<forall>r \<in> set p. 0x80 \<le> fst r \<and> snd r \<le> 0xBF \<Longrightarrow>
   \<forall>r \<in> set q. 0x80 \<le> fst r \<and> snd r \<le> 0xBF"
proof (induction p s rule: utf8_state.induct)
  case (1 pending)
  then show ?case by simp
next
  case (2 c cs)
  then obtain p' where l: "utf8_lead (of_char c) = Some p'" and s: "utf8_state p' cs = Some q"
    by (auto split: option.splits)
  from "2.IH"[OF l s] utf8_lead_conts[OF l] show ?case by blast
next
  case (3 r pending c cs)
  then show ?case by (auto split: if_splits)
qed

lemma utf8_valid_append: "utf8_valid a \<Longrightarrow> utf8_valid b \<Longrightarrow> utf8_valid (a @ b)"
  by (simp add: utf8_valid_def utf8_state_append)

text \<open>
  An encoded text that occurs in an encoded text starts and ends where characters
  start and end: what stands before it and after it are encoded texts again.
\<close>

lemma utf8_valid_split:
  assumes whole: "utf8_valid (pre @ s @ post)" and s: "utf8_valid s" and ne: "s \<noteq> []"
  shows "utf8_valid pre \<and> utf8_valid post"
proof -
  from whole obtain q where q: "utf8_state [] pre = Some q"
    and rest: "utf8_state q (s @ post) = Some []"
    by (auto simp: utf8_valid_def utf8_state_append split: option.splits)
  from ne obtain c cs where cs: "s = c # cs" by (cases s) auto
  from s cs obtain p' where lead: "utf8_lead (of_char c) = Some p'"
    by (auto simp: utf8_valid_def split: option.splits)
  have q0: "q = []"
  proof (cases q)
    case Nil
    then show ?thesis .
  next
    case (Cons r q')
    from utf8_state_conts[OF q] Cons have "0x80 \<le> fst r \<and> snd r \<le> 0xBF" by simp
    moreover from rest cs Cons have "fst r \<le> of_char c \<and> of_char c \<le> snd r"
      by (auto split: if_splits)
    ultimately have "(0x80::nat) \<le> of_char c \<and> (of_char c::nat) \<le> 0xBF" by linarith
    with utf8_lead_byte[OF lead] show ?thesis by linarith
  qed
  from rest q0 s have "utf8_state [] post = Some []"
    by (simp add: utf8_valid_def utf8_state_append)
  with q q0 show ?thesis by (simp add: utf8_valid_def)
qed

lemma universal_newlines_no_cr: "CHR 0x0D \<notin> set (universal_newlines s)"
  by (induction s rule: universal_newlines.induct) auto

lemma universal_newlines_id: "CHR 0x0D \<notin> set s \<Longrightarrow> universal_newlines s = s"
  by (induction s rule: universal_newlines.induct) auto

lemma utf8_state_newlines:
  "\<forall>r \<in> set p. 0x80 \<le> fst r \<and> snd r \<le> 0xBF \<Longrightarrow> utf8_state p s = Some q \<Longrightarrow>
   utf8_state p (universal_newlines s) = Some q"
proof (induction s arbitrary: p rule: universal_newlines.induct)
  case 1
  then show ?case by simp
next
  case (2 c)
  show ?case
  proof (cases p)
    case Nil
    with 2 show ?thesis by (auto simp: utf8_lead_def split: option.splits)
  next
    case (Cons r p')
    with 2 show ?thesis by (auto split: if_splits)
  qed
next
  case (3 c d cs)
  show ?case
  proof (cases p)
    case Nil
    show ?thesis
    proof (cases "c = CHR 0x0D")
      case True
      have l13: "utf8_lead 13 = Some []" and l10: "utf8_lead 10 = Some []"
        by (simp_all add: utf8_lead_def)
      show ?thesis
      proof (cases "d = CHR 0x0A")
        case d: True
        from "3.prems"(2) Nil True d have "utf8_state [] cs = Some q" by (simp add: l13 l10)
        from "3.IH"(1)[OF True d _ this] True d Nil show ?thesis by (simp add: l10)
      next
        case d: False
        from "3.prems"(2) Nil True have "utf8_state [] (d # cs) = Some q" by (simp add: l13)
        from "3.IH"(2)[OF True d _ this] True d Nil show ?thesis by (simp add: l10)
      qed
    next
      case False
      from "3.prems"(2) Nil obtain p' where l: "utf8_lead (of_char c) = Some p'"
        and s: "utf8_state p' (d # cs) = Some q" by (auto split: option.splits)
      from "3.IH"(3)[OF False utf8_lead_conts[OF l] s] False Nil l show ?thesis by simp
    qed
  next
    case (Cons r p')
    from "3.prems" Cons have rng: "fst r \<le> of_char c \<and> of_char c \<le> snd r"
      and s: "utf8_state p' (d # cs) = Some q" and cont: "0x80 \<le> fst r"
      and c': "\<forall>r \<in> set p'. 0x80 \<le> fst r \<and> snd r \<le> 0xBF"
      by (auto split: if_splits)
    have nc: "c \<noteq> CHR 0x0D"
    proof
      assume "c = CHR 0x0D"
      with rng cont show False by simp
    qed
    from "3.IH"(3)[OF nc c' s] nc Cons rng show ?thesis by simp
  qed
qed

lemma utf8_valid_newlines: "utf8_valid s \<Longrightarrow> utf8_valid (universal_newlines s)"
  using utf8_state_newlines[of "[]" s "[]"] by (simp add: utf8_valid_def)

section \<open>Path lookup\<close>

lemma lookup_butlast:
  "lookup n l = Some m \<Longrightarrow> l \<noteq> [] \<Longrightarrow> \<exists>es. lookup n (butlast l) = Some (Dir es)"
proof (induction n l rule: lookup.induct)
  case (2 es c cs)
  then show ?case by (cases cs) (auto split: option.splits)
qed auto

lemma dirloc_butlast:
  "is_dir_node (lstat fs loc) \<Longrightarrow> is_dir_node (lstat fs (butlast loc))"
proof (cases "loc = []")
  case False
  assume "is_dir_node (lstat fs loc)"
  then obtain m where "lookup (Dir (root fs)) loc = Some m"
    by (cases "lstat fs loc") (auto simp: lstat_def)
  from lookup_butlast[OF this False] show ?thesis by (auto simp: lstat_def)
qed simp

lemma follow_lstat: "follow fs x = (b, l, n) \<Longrightarrow> n = lstat fs l"
  by (auto simp: follow_def split: option.splits node.splits)

lemma is_dir_node_iff: "is_dir_node n \<longleftrightarrow> (\<exists>es. n = Some (Dir es))"
  by (cases n rule: is_dir_node.cases) auto

lemma walk_lstat: "walk fs loc ps = Inr (b, l, n) \<Longrightarrow> n = lstat fs l"
proof (induction ps arbitrary: loc)
  case Nil
  then show ?case by auto
next
  case (Cons c cs)
  show ?case
  proof (cases "c = ''..''")
    case True
    with Cons show ?thesis by simp
  next
    case False
    obtain b1 l1 n1 where f: "follow fs (loc @ [c]) = (b1, l1, n1)"
      by (cases "follow fs (loc @ [c])") auto
    from follow_lstat[OF f] have n1: "n1 = lstat fs l1" .
    from Cons.prems False f n1 Cons.IH[of l1] show ?thesis
      by (auto split: option.splits node.splits if_splits)
  qed
qed

lemma walk_file_parent:
  "is_dir_node (lstat fs loc) \<Longrightarrow> walk fs loc ps = Inr (b, l, Some (File i)) \<Longrightarrow>
   ps \<noteq> [] \<and> (\<exists>b' l' es. walk fs loc (butlast ps) = Inr (b', l', Some (Dir es)))"
proof (induction fs loc ps rule: walk.induct)
  case (1 fs loc)
  then show ?case by (auto simp: is_dir_node_iff)
next
  case (2 fs loc c cs)
  show ?case
  proof (cases "c = ''..''")
    case True
    have d: "is_dir_node (lstat fs (butlast loc))" using "2.prems"(1) by (rule dirloc_butlast)
    from True "2.prems"(2) have w: "walk fs (butlast loc) cs = Inr (b, l, Some (File i))" by simp
    from "2.IH"(1)[OF True d w] True show ?thesis by (cases cs) auto
  next
    case False
    obtain b1 l1 n1 where f: "follow fs (loc @ [c]) = (b1, l1, n1)" by (cases "follow fs (loc @ [c])") auto
    show ?thesis
    proof (cases "cs = []")
      case True
      with "2.prems"(1) show ?thesis by (auto simp: is_dir_node_iff)
    next
      case cs: False
      from "2.prems"(2) False f cs obtain es where n1: "n1 = Some (Dir es)"
        and w: "walk fs l1 cs = Inr (b, l, Some (File i))"
        by (auto split: option.splits node.splits if_splits)
      have l1: "lstat fs l1 = Some (Dir es)" using follow_lstat[OF f] n1 by simp
      have d: "is_dir_node (lstat fs l1)" by (simp add: l1)
      from "2.IH"(2)[OF False f[symmetric] refl n1 refl cs d w]
      obtain b' l' es' where "walk fs l1 (butlast cs) = Inr (b', l', Some (Dir es'))" by blast
      then show ?thesis using False f n1 cs l1
        by (cases "butlast cs = []") auto
    qed
  qed
qed

lemma read_file_Inr:
  "read_file fs p = Inr c \<Longrightarrow>
   \<exists>b l i. namei fs p = Inr (b, l, Some (File i)) \<and> utf8_valid (data fs i) \<and>
     c = universal_newlines (data fs i)"
  by (auto simp: read_file_def split: sum.splits option.splits node.splits if_splits)

lemma has_nul_parent: "has_nul (parent p) \<Longrightarrow> has_nul p"
  by (auto simp: has_nul_def parent_def list_ex_iff dest: in_set_butlastD)

lemma lstat_root: "is_dir_node (lstat fs [])"
  by (simp add: lstat_def)

lemma namei_parent:
  assumes "namei fs p = Inr (b, l, Some (File i))"
  shows "\<exists>b' l' es. namei fs (parent p) = Inr (b', l', Some (Dir es))"
proof -
  have nn: "\<not> has_nul p" using assms by (auto simp: namei_def split: if_splits)
  then have np: "\<not> has_nul (parent p)" using has_nul_parent by blast
  show ?thesis
  proof (cases "anchor p = Relative")
    case True
    with assms nn have d: "is_dir_node (lstat fs (cwd fs))"
      and w: "walk fs (cwd fs) (parts p) = Inr (b, l, Some (File i))"
      by (auto simp: namei_def split: if_splits)
    from walk_file_parent[OF d w] True np d show ?thesis
      by (auto simp: namei_def parent_def)
  next
    case False
    with assms nn have w: "walk fs [] (parts p) = Inr (b, l, Some (File i))"
      by (auto simp: namei_def split: anchor.splits)
    from walk_file_parent[OF lstat_root w] False np show ?thesis
      by (auto simp: namei_def parent_def split: anchor.splits)
  qed
qed

lemma mkdir_parents_existing:
  assumes "namei fs (Path a ps) = Inr (b, l, Some (Dir es))"
  shows "mkdir_parents fs a ps = Inr fs"
proof -
  have "os_mkdir fs (Path a ps) = Inl FileExistsError" using assms by (simp add: os_mkdir_def)
  moreover have "is_dir fs (Path a ps)" using assms by (simp add: is_dir_def)
  ultimately show ?thesis by (simp add: mkdir_parents.simps)
qed

lemma write_file_existing:
  "namei fs p = Inr (b, l, Some (File i)) \<Longrightarrow> utf8_valid c \<Longrightarrow>
   write_file fs p c = (Inr (), fs\<lparr>data := (data fs)(i := c)\<rparr>)"
  by (simp add: write_file_def open_w_def)

lemma lstat_data [simp]: "lstat (fs\<lparr>data := d\<rparr>) l = lstat fs l"
  by (simp add: lstat_def)

lemma follow_data [simp]: "follow (fs\<lparr>data := d\<rparr>) l = follow fs l"
  by (simp add: follow_def split: option.splits node.splits)

lemma walk_data [simp]: "walk (fs\<lparr>data := d\<rparr>) loc ps = walk fs loc ps"
  by (induction ps arbitrary: loc) (auto split: prod.splits option.splits node.splits)

lemma namei_data [simp]: "namei (fs\<lparr>data := d\<rparr>) p = namei fs p"
  by (simp add: namei_def split: anchor.splits)

lemma realpath_data [simp]: "realpath (fs\<lparr>data := d\<rparr>) l ps = realpath fs l ps"
  by (induction ps arbitrary: l) (auto split: option.splits node.splits)

lemma normalize_path_data [simp]: "normalize_path (fs\<lparr>data := d\<rparr>) s = normalize_path fs s"
  by (simp add: normalize_path_def resolve_def split: anchor.splits)

lemma split_sep_no_slash: "w \<in> set (split_sep s) \<Longrightarrow> CHR ''/'' \<notin> set w"
proof (induction s arbitrary: w)
  case Nil
  then show ?case by simp
next
  case (Cons c cs)
  then show ?case
    by (cases "split_sep cs") (fastforce split: if_splits)+
qed

lemma split_sep_plain: "CHR ''/'' \<notin> set w \<Longrightarrow> split_sep w = [w]"
  by (induction w) auto

lemma split_sep_append:
  "CHR ''/'' \<notin> set w \<Longrightarrow> split_sep (w @ CHR ''/'' # rest) = w # split_sep rest"
  by (induction w) auto

lemma split_sep_join:
  "l \<noteq> [] \<Longrightarrow> \<forall>c \<in> set l. CHR ''/'' \<notin> set c \<Longrightarrow> split_sep (join_sep l) = l"
proof (induction l rule: join_sep.induct)
  case 1
  then show ?case by simp
next
  case (2 p)
  then show ?case by (simp add: split_sep_plain)
next
  case (3 p q ps)
  then show ?case by (simp add: split_sep_append)
qed

lemma join_sep_no_leading_slash:
  "\<forall>c \<in> set l. c \<noteq> [] \<and> CHR ''/'' \<notin> set c \<Longrightarrow> \<not> prefix ''/'' (join_sep l)"
proof (induction l rule: join_sep.induct)
  case 1
  then show ?case by simp
next
  case (2 p)
  then show ?case by (cases p) auto
next
  case (3 p q ps)
  then show ?case by (cases p) auto
qed

lemma pathlib_path_iff:
  "pathlib_path p \<longleftrightarrow> (\<forall>c \<in> set (parts p). c \<noteq> [] \<and> c \<noteq> ''.'' \<and> CHR ''/'' \<notin> set c)"
  by (simp add: pathlib_path_def list_all_iff)

lemma pathlib_parse_path: "pathlib_path (parse_path s)"
  using split_sep_no_slash by (auto simp: pathlib_path_iff parse_path_def)

lemma pathlib_path_join: "pathlib_path d \<Longrightarrow> pathlib_path (path_join d s)"
  using pathlib_parse_path[of s]
  by (auto simp: pathlib_path_iff path_join_def split: path.splits anchor.splits)

text \<open>A path that \<^verbatim>\<open>pathlib\<close> built is read back from its string.\<close>

lemma parse_path_str:
  assumes "pathlib_path p"
  shows "parse_path (path_str p) = p"
proof -
  obtain a l where p: "p = Path a l" by (cases p)
  have pl: "\<forall>c \<in> set l. c \<noteq> [] \<and> c \<noteq> ''.'' \<and> CHR ''/'' \<notin> set c"
    using assms p by (simp add: pathlib_path_iff)
  have nls: "\<not> prefix ''/'' (join_sep l)"
    using join_sep_no_leading_slash[of l] pl by blast
  have f: "filter (\<lambda>c. c \<noteq> [] \<and> c \<noteq> ''.'') l = l"
    using pl by (auto simp: filter_id_conv)
  have sp: "filter (\<lambda>c. c \<noteq> [] \<and> c \<noteq> ''.'') (split_sep (join_sep l)) = l"
  proof (cases "l = []")
    case True
    then show ?thesis by simp
  next
    case False
    have "\<forall>c \<in> set l. CHR ''/'' \<notin> set c" using pl by blast
    from split_sep_join[OF False this] f show ?thesis by simp
  qed
  show ?thesis
  proof (cases a)
    case Relative
    show ?thesis
    proof (cases "l = []")
      case True
      with p Relative show ?thesis by (simp add: parse_path_def path_str_def anchor_of_def)
    next
      case False
      have "anchor_of (join_sep l) = Relative"
        using nls by (cases "join_sep l") (auto simp: anchor_of_def)
      with p Relative False sp show ?thesis by (simp add: parse_path_def path_str_def)
    qed
  next
    case Root
    have "anchor_of (''/'' @ join_sep l) = Root"
      using nls by (cases "join_sep l") (auto simp: anchor_of_def)
    with p Root sp show ?thesis by (simp add: parse_path_def path_str_def)
  next
    case DoubleRoot
    have "anchor_of (''//'' @ join_sep l) = DoubleRoot"
      using nls by (cases "join_sep l") (auto simp: anchor_of_def)
    with p DoubleRoot sp show ?thesis by (simp add: parse_path_def path_str_def)
  qed
qed

text \<open>
  Where the kernel's lookup succeeds, \<^verbatim>\<open>realpath\<close> goes the same way, meets no loop and
  ends at the same location.
\<close>

lemma walk_realpath:
  "walk fs loc cs = Inr (b, l, n) \<Longrightarrow> realpath fs loc cs = (l, True)"
proof (induction cs arbitrary: loc)
  case Nil
  then show ?case by simp
next
  case (Cons c cs)
  show ?case
  proof (cases "c = ''..''")
    case True
    with Cons show ?thesis by simp
  next
    case False
    show ?thesis
    proof (cases "lstat fs (loc @ [c])")
      case None
      with Cons.prems False show ?thesis
        by (auto simp: follow_def split: if_splits)
    next
      case (Some m)
      show ?thesis
      proof (cases m)
        case (File i)
        with Some Cons.prems False show ?thesis
          by (auto simp: follow_def split: if_splits)
      next
        case (Dir es)
        with Some Cons.prems Cons.IH False show ?thesis
          by (auto simp: follow_def split: if_splits)
      next
        case (Symlink t)
        with Some Cons.prems Cons.IH[of t] False show ?thesis
          by (cases "lstat fs t") (auto simp: follow_def split: if_splits node.splits)
      qed
    qed
  qed
qed

lemma namei_resolve:
  assumes "namei fs p = Inr (b, l, n)"
  shows "resolve fs p = Inr (Path Root l)"
proof -
  have nn: "\<not> has_nul p" using assms by (auto simp: namei_def split: if_splits)
  show ?thesis
  proof (cases "anchor p = Relative")
    case True
    with assms nn have "walk fs (cwd fs) (parts p) = Inr (b, l, n)"
      by (auto simp: namei_def split: if_splits)
    from walk_realpath[OF this] True nn show ?thesis by (simp add: resolve_def)
  next
    case False
    with assms nn have "walk fs [] (parts p) = Inr (b, l, n)"
      by (auto simp: namei_def split: anchor.splits)
    from walk_realpath[OF this] False nn show ?thesis
      by (auto simp: resolve_def split: anchor.splits)
  qed
qed

lemma normalize_path_of_readable:
  assumes "namei fs p = Inr (b, l, n)" and "pathlib_path p"
  shows "normalize_path fs (path_str p) = Inr (path_str (Path Root l))"
  using namei_resolve[OF assms(1)] parse_path_str[OF assms(2)]
  by (simp add: normalize_path_def)

section \<open>Patching a file\<close>

lemma leftmost_exists:
  "str_contains sub s \<Longrightarrow>
   \<exists>pre post. s = pre @ sub @ post \<and>
     (\<forall>pre' post'. s = pre' @ sub @ post' \<longrightarrow> length pre \<le> length pre')"
proof (induction s)
  case Nil
  then show ?case by auto
next
  case (Cons c cs)
  show ?case
  proof (cases "prefix sub (c # cs)")
    case True
    then obtain post where "c # cs = [] @ sub @ post" by (auto simp: prefix_def)
    then show ?thesis by (metis list.size(3) le0)
  next
    case False
    with Cons.prems have "str_contains sub cs" by simp
    from Cons.IH[OF this] obtain pre post where eq: "cs = pre @ sub @ post"
      and mn: "\<forall>pre' post'. cs = pre' @ sub @ post' \<longrightarrow> length pre \<le> length pre'" by blast
    have "c # cs = (c # pre) @ sub @ post" using eq by simp
    moreover have "\<forall>pre' post'. c # cs = pre' @ sub @ post' \<longrightarrow> length (c # pre) \<le> length pre'"
    proof (intro allI impI)
      fix pre' post'
      assume a: "c # cs = pre' @ sub @ post'"
      show "length (c # pre) \<le> length pre'"
      proof (cases pre')
        case Nil
        with a have "prefix sub (c # cs)" by (simp add: prefix_def)
        with False show ?thesis by simp
      next
        case (Cons a' pre'')
        with a have "cs = pre'' @ sub @ post'" by simp
        with mn have "length pre \<le> length pre''" by blast
        with Cons show ?thesis by simp
      qed
    qed
    ultimately show ?thesis by blast
  qed
qed

lemma create_file_existing:
  assumes nm: "namei (disk w) (path_join project_dir p) = Inr (b, l, Some (File i))"
      and pl: "pathlib_path (path_join project_dir p)"
      and enc: "utf8_valid c"
  shows "normalize_path (disk w) (path_str (path_join project_dir p)) = Inr (path_str (Path Root l)) \<and>
     create_file p c project_dir w =
       (Inr (), w\<lparr>disk := (disk w)\<lparr>data := (data (disk w))(i := c)\<rparr>,
          conversation_history := conversation_history w @
            [\<lparr>role = Assistant,
              content = check_mark @ '' Created/updated file at '' @ sq
                        @ path_str (path_join project_dir p) @ sq\<rparr>,
             \<lparr>role = System,
              content = file_marker (path_str (Path Root l)) @ '':'' @ nl @ nl @ c\<rparr>],
          console := console w @
            [Print (''[green]'' @ check_mark @ ''[/green] Created/updated file at ''
                    @ sq @ ''[cyan]'' @ path_str (path_join project_dir p) @ ''[/cyan]'' @ sq)]\<rparr>)"
proof -
  let ?fp = "path_join project_dir p"
  have n: "normalize_path (disk w) (path_str ?fp) = Inr (path_str (Path Root l))"
    using nm pl by (rule normalize_path_of_readable)
  from namei_parent[OF nm] obtain b' l' es
    where "namei (disk w) (parent ?fp) = Inr (b', l', Some (Dir es))" by blast
  then have "namei (disk w) (Path (anchor (parent ?fp)) (parts (parent ?fp))) = Inr (b', l', Some (Dir es))"
    by simp
  from mkdir_parents_existing[OF this]
  have mk: "mkdir_parents (disk w) (anchor (parent ?fp)) (parts (parent ?fp)) = Inr (disk w)" .
  have wr: "write_file (disk w) ?fp c = (Inr (), (disk w)\<lparr>data := (data (disk w))(i := c)\<rparr>)"
    using nm enc by (rule write_file_existing)
  have "create_file p c project_dir w =
       (Inr (), w\<lparr>disk := (disk w)\<lparr>data := (data (disk w))(i := c)\<rparr>,
          conversation_history := conversation_history w @
            [\<lparr>role = Assistant,
              content = check_mark @ '' Created/updated file at '' @ sq @ path_str ?fp @ sq\<rparr>,
             \<lparr>role = System,
              content = file_marker (path_str (Path Root l)) @ '':'' @ nl @ nl @ c\<rparr>],
          console := console w @
            [Print (''[green]'' @ check_mark @ ''[/green] Created/updated file at ''
                    @ sq @ ''[cyan]'' @ path_str ?fp @ ''[/cyan]'' @ sq)]\<rparr>)"
    using n mk wr by (simp add: create_file_def Let_def say_def append_message_def)
  with n show ?thesis by simp
qed

lemma apply_diff_edit_applied:
  assumes rd: "read_local_file (disk w) (path_join project_dir p) = Inr c0"
      and sc: "str_contains original_snippet c0"
      and pl: "pathlib_path (path_join project_dir p)"
      and enc: "utf8_valid (replace_first original_snippet new_snippet c0)"
  shows "\<exists>i n. utf8_valid (data (disk w) i) \<and> universal_newlines (data (disk w) i) = c0 \<and>
     normalize_path (disk w) (path_str (path_join project_dir p)) = Inr n \<and>
     apply_diff_edit p original_snippet new_snippet project_dir w =
       (Inr (), w\<lparr>disk := (disk w)\<lparr>data := (data (disk w))(i := replace_first original_snippet new_snippet c0)\<rparr>,
          conversation_history := conversation_history w @
            [\<lparr>role = Assistant,
              content = check_mark @ '' Created/updated file at '' @ sq
                        @ path_str (path_join project_dir p) @ sq\<rparr>,
             \<lparr>role = System,
              content = file_marker n @ '':'' @ nl @ nl
                        @ replace_first original_snippet new_snippet c0\<rparr>,
             \<lparr>role = Assistant,
              content = check_mark @ '' Applied diff edit to '' @ sq
                        @ path_str (path_join project_dir p) @ sq\<rparr>],
          console := console w @
            [Print (''[green]'' @ check_mark @ ''[/green] Created/updated file at ''
                    @ sq @ ''[cyan]'' @ path_str (path_join project_dir p) @ ''[/cyan]'' @ sq),
             Print (''[green]'' @ check_mark @ ''[/green] Applied diff edit to ''
                    @ sq @ ''[cyan]'' @ path_str (path_join project_dir p) @ ''[/cyan]'' @ sq)]\<rparr>) \<and>
     read_local_file ((disk w)\<lparr>data := (data (disk w))(i := replace_first original_snippet new_snippet c0)\<rparr>)
       (path_join project_dir p) =
       Inr (universal_newlines (replace_first original_snippet new_snippet c0))"
proof -
  let ?fp = "path_join project_dir p"
  let ?new = "replace_first original_snippet new_snippet c0"
  from rd obtain b l i where nm: "namei (disk w) ?fp = Inr (b, l, Some (File i))"
    and va: "utf8_valid (data (disk w) i)"
    and c0: "c0 = universal_newlines (data (disk w) i)"
    using read_file_Inr unfolding read_local_file_def by blast
  from create_file_existing[OF nm pl enc]
  have n: "normalize_path (disk w) (path_str ?fp) = Inr (path_str (Path Root l))"
    and cf: "create_file p ?new project_dir w =
       (Inr (), w\<lparr>disk := (disk w)\<lparr>data := (data (disk w))(i := ?new)\<rparr>,
          conversation_history := conversation_history w @
            [\<lparr>role = Assistant,
              content = check_mark @ '' Created/updated file at '' @ sq @ path_str ?fp @ sq\<rparr>,
             \<lparr>role = System,
              content = file_marker (path_str (Path Root l)) @ '':'' @ nl @ nl @ ?new\<rparr>],
          console := console w @
            [Print (''[green]'' @ check_mark @ ''[/green] Created/updated file at ''
                    @ sq @ ''[cyan]'' @ path_str ?fp @ ''[/cyan]'' @ sq)]\<rparr>)"
    by blast+
  have rb: "read_local_file ((disk w)\<lparr>data := (data (disk w))(i := ?new)\<rparr>) ?fp =
            Inr (universal_newlines ?new)"
    using nm enc by (simp add: read_local_file_def read_file_def)
  have "apply_diff_edit p original_snippet new_snippet project_dir w =
       (Inr (), w\<lparr>disk := (disk w)\<lparr>data := (data (disk w))(i := ?new)\<rparr>,
          conversation_history := conversation_history w @
            [\<lparr>role = Assistant,
              content = check_mark @ '' Created/updated file at '' @ sq @ path_str ?fp @ sq\<rparr>,
             \<lparr>role = System,
              content = file_marker (path_str (Path Root l)) @ '':'' @ nl @ nl @ ?new\<rparr>,
             \<lparr>role = Assistant,
              content = check_mark @ '' Applied diff edit to '' @ sq @ path_str ?fp @ sq\<rparr>],
          console := console w @
            [Print (''[green]'' @ check_mark @ ''[/green] Created/updated file at ''
                    @ sq @ ''[cyan]'' @ path_str ?fp @ ''[/cyan]'' @ sq),
             Print (''[green]'' @ check_mark @ ''[/green] Applied diff edit to ''
                    @ sq @ ''[cyan]'' @ path_str ?fp @ ''[/cyan]'' @ sq)]\<rparr>)"
    using rd sc cf by (simp add: apply_diff_edit_def Let_def say_def append_message_def)
  with n va c0 rb show ?thesis by blast
qed

text \<open>
  A patched text that UTF-8 cannot encode, because a snippet holds a lone surrogate,
  makes the write raise after \<^verbatim>\<open>open\<close> has emptied the file.
\<close>

lemma apply_diff_edit_unencodable:
  assumes rd: "read_local_file (disk w) (path_join project_dir p) = Inr c0"
      and sc: "str_contains original_snippet c0"
      and enc: "\<not> utf8_valid (replace_first original_snippet new_snippet c0)"
  shows "\<exists>i. universal_newlines (data (disk w) i) = c0 \<and>
     apply_diff_edit p original_snippet new_snippet project_dir w =
       (Inl UnicodeEncodeError, w\<lparr>disk := (disk w)\<lparr>data := (data (disk w))(i := [])\<rparr>\<rparr>)"
proof -
  let ?fp = "path_join project_dir p"
  let ?new = "replace_first original_snippet new_snippet c0"
  from rd obtain b l i where nm: "namei (disk w) ?fp = Inr (b, l, Some (File i))"
    and c0: "c0 = universal_newlines (data (disk w) i)"
    using read_file_Inr unfolding read_local_file_def by blast
  from namei_parent[OF nm] obtain b' l' es
    where "namei (disk w) (parent ?fp) = Inr (b', l', Some (Dir es))" by blast
  then have "namei (disk w) (Path (anchor (parent ?fp)) (parts (parent ?fp))) = Inr (b', l', Some (Dir es))"
    by simp
  from mkdir_parents_existing[OF this]
  have mk: "mkdir_parents (disk w) (anchor (parent ?fp)) (parts (parent ?fp)) = Inr (disk w)" .
  have wr: "write_file (disk w) ?fp ?new =
            (Inl UnicodeEncodeError, (disk w)\<lparr>data := (data (disk w))(i := [])\<rparr>)"
    using nm enc by (simp add: write_file_def open_w_def)
  have cf: "create_file p ?new project_dir w =
            (Inl UnicodeEncodeError, w\<lparr>disk := (disk w)\<lparr>data := (data (disk w))(i := [])\<rparr>\<rparr>)"
    using mk wr by (simp add: create_file_def Let_def)
  have "apply_diff_edit p original_snippet new_snippet project_dir w =
       (Inl UnicodeEncodeError, w\<lparr>disk := (disk w)\<lparr>data := (data (disk w))(i := [])\<rparr>\<rparr>)"
    using rd sc cf by (simp add: apply_diff_edit_def Let_def)
  with c0 show ?thesis by blast
qed

lemma read_local_file_text:
  "read_local_file fs p = Inr c \<Longrightarrow> utf8_valid c \<and> CHR 0x0D \<notin> set c"
  using read_file_Inr[of fs p c] utf8_valid_newlines universal_newlines_no_cr
  by (auto simp: read_local_file_def)

lemma patched_text_valid:
  assumes c0: "utf8_valid (pre @ old @ post)"
      and mn: "\<forall>pre' post'. pre @ old @ post = pre' @ old @ post' \<longrightarrow> length pre \<le> length pre'"
      and old: "utf8_valid old" and new: "utf8_valid new"
  shows "utf8_valid (pre @ new @ post)"
proof (cases "old = []")
  case True
  have "pre @ old @ post = [] @ old @ (pre @ post)" using True by simp
  with mn have "length pre \<le> length ([]::string)" by blast
  then have "pre = []" by simp
  with c0 True new show ?thesis by (simp add: utf8_valid_append)
next
  case False
  from utf8_valid_split[OF c0 old False] new show ?thesis
    by (simp add: utf8_valid_append)
qed

lemma demo_read_app:
  "read_local_file (disk demo_world) (path_join demo_dir ''app.py'') = Inr ''x = 1; x = 1''"
  by code_simp

lemma demo_read_missing:
  "read_local_file (disk demo_world) (path_join demo_dir ''nope.py'') = Inl FileNotFoundError"
  by code_simp

lemma demo_dir_pathlib: "pathlib_path demo_dir"
  by code_simp

text \<open>
  Claim C1, amended. Let the file at \<^verbatim>\<open>project_dir / path\<close> read, in text mode, as a
  text \<open>c0\<close> that has \<open>original_snippet\<close> as a substring, and let the two snippets be
  texts that UTF-8 can encode. Then \<open>apply_diff_edit\<close> returns normally, and \<open>c0\<close> is cut
  as \<open>pre @ original_snippet @ post\<close> at the leftmost occurrence (no occurrence starts
  before \<open>pre\<close> ends). The file's inode then holds \<open>pre @ new_snippet @ post\<close>: \<open>post\<close>, with
  any later occurrence, is untouched. The directory tree is unchanged, the history gains
  the created, content and applied messages, and the console reports the edit as
  applied. The file reads back as the text written, line ends translated again, which
  is the text itself when the new snippet holds no carriage return. The text \<open>c0\<close> is
  what the read returns, the bytes of the file with \<^verbatim>\<open>\r\n\<close> and \<^verbatim>\<open>\r\<close> turned into
  \<^verbatim>\<open>\n\<close>, so all the line ends of the file are rewritten with it.
\<close>

theorem apply_diff_edit_first_occurrence:
  assumes "read_local_file (disk w) (path_join project_dir p) = Inr c0"
      and "\<exists>a b. c0 = a @ original_snippet @ b"
      and "pathlib_path project_dir"
      and "utf8_valid original_snippet" and "utf8_valid new_snippet"
  shows "\<exists>pre post i n.
     c0 = pre @ original_snippet @ post \<and>
     (\<forall>pre' post'. c0 = pre' @ original_snippet @ post' \<longrightarrow> length pre \<le> length pre') \<and>
     universal_newlines (data (disk w) i) = c0 \<and>
     normalize_path (disk w) (path_str (path_join project_dir p)) = Inr n \<and>
     apply_diff_edit p original_snippet new_snippet project_dir w =
       (Inr (), w\<lparr>disk := (disk w)\<lparr>data := (data (disk w))(i := pre @ new_snippet @ post)\<rparr>,
          conversation_history := conversation_history w @
            [\<lparr>role = Assistant,
              content = check_mark @ '' Created/updated file at '' @ sq
                        @ path_str (path_join project_dir p) @ sq\<rparr>,
             \<lparr>role = System,
              content = file_marker n @ '':'' @ nl @ nl @ pre @ new_snippet @ post\<rparr>,
             \<lparr>role = Assistant,
              content = check_mark @ '' Applied diff edit to '' @ sq
                        @ path_str (path_join project_dir p) @ sq\<rparr>],
          console := console w @
            [Print (''[green]'' @ check_mark @ ''[/green] Created/updated file at ''
                    @ sq @ ''[cyan]'' @ path_str (path_join project_dir p) @ ''[/cyan]'' @ sq),
             Print (''[green]'' @ check_mark @ ''[/green] Applied diff edit to ''
                    @ sq @ ''[cyan]'' @ path_str (path_join project_dir p) @ ''[/cyan]'' @ sq)]\<rparr>) \<and>
     read_local_file ((disk w)\<lparr>data := (data (disk w))(i := pre @ new_snippet @ post)\<rparr>)
       (path_join project_dir p) = Inr (universal_newlines (pre @ new_snippet @ post)) \<and>
     (CHR 0x0D \<notin> set new_snippet \<longrightarrow>
        universal_newlines (pre @ new_snippet @ post) = pre @ new_snippet @ post)"
proof -
  have sc: "str_contains original_snippet c0" using assms(2) by (simp add: str_contains_iff)
  from leftmost_exists[OF sc] obtain pre post where eq: "c0 = pre @ original_snippet @ post"
    and mn: "\<forall>pre' post'. c0 = pre' @ original_snippet @ post' \<longrightarrow> length pre \<le> length pre'"
    by blast
  have rf: "replace_first original_snippet new_snippet c0 = pre @ new_snippet @ post"
  proof (rule replace_first_leftmost[OF eq])
    fix pre' post'
    assume "c0 = pre' @ original_snippet @ post'"
    with mn show "length pre \<le> length pre'" by blast
  qed
  from read_local_file_text[OF assms(1)] have v0: "utf8_valid c0" and nc: "CHR 0x0D \<notin> set c0"
    by blast+
  have enc: "utf8_valid (replace_first original_snippet new_snippet c0)"
    unfolding rf using v0 mn assms(4,5) unfolding eq by (rule patched_text_valid)
  have id: "CHR 0x0D \<notin> set new_snippet \<longrightarrow>
        universal_newlines (pre @ new_snippet @ post) = pre @ new_snippet @ post"
    using nc eq by (auto intro: universal_newlines_id)
  from apply_diff_edit_applied[OF assms(1) sc pathlib_path_join[OF assms(3)] enc]
  obtain i n where r: "universal_newlines (data (disk w) i) = c0 \<and>
     normalize_path (disk w) (path_str (path_join project_dir p)) = Inr n \<and>
     apply_diff_edit p original_snippet new_snippet project_dir w =
       (Inr (), w\<lparr>disk := (disk w)\<lparr>data := (data (disk w))(i := replace_first original_snippet new_snippet c0)\<rparr>,
          conversation_history := conversation_history w @
            [\<lparr>role = Assistant,
              content = check_mark @ '' Created/updated file at '' @ sq
                        @ path_str (path_join project_dir p) @ sq\<rparr>,
             \<lparr>role = System,
              content = file_marker n @ '':'' @ nl @ nl
                        @ replace_first original_snippet new_snippet c0\<rparr>,
             \<lparr>role = Assistant,
              content = check_mark @ '' Applied diff edit to '' @ sq
                        @ path_str (path_join project_dir p) @ sq\<rparr>],
          console := console w @
            [Print (''[green]'' @ check_mark @ ''[/green] Created/updated file at ''
                    @ sq @ ''[cyan]'' @ path_str (path_join project_dir p) @ ''[/cyan]'' @ sq),
             Print (''[green]'' @ check_mark @ ''[/green] Applied diff edit to ''
                    @ sq @ ''[cyan]'' @ path_str (path_join project_dir p) @ ''[/cyan]'' @ sq)]\<rparr>) \<and>
     read_local_file ((disk w)\<lparr>data := (data (disk w))(i := replace_first original_snippet new_snippet c0)\<rparr>)
       (path_join project_dir p) =
       Inr (universal_newlines (replace_first original_snippet new_snippet c0))"
    by blast
  show ?thesis
    apply (rule exI[of _ pre], rule exI[of _ post], rule exI[of _ i], rule exI[of _ n])
    using eq mn id r[unfolded rf] by blast
qed

theorem apply_diff_edit_first_occurrence_witness:
  "read_local_file (disk demo_world) (path_join demo_dir ''app.py'') = Inr ''x = 1; x = 1'' \<and>
   (\<exists>a b. ''x = 1; x = 1'' = a @ ''x = 1'' @ b) \<and>
   pathlib_path demo_dir \<and> utf8_valid ''x = 1'' \<and> utf8_valid ''y'' \<and>
   (\<exists>pre post i.
     ''x = 1; x = 1'' = pre @ ''x = 1'' @ post \<and>
     (\<forall>pre' post'. ''x = 1; x = 1'' = pre' @ ''x = 1'' @ post' \<longrightarrow> length pre \<le> length pre') \<and>
     fst (apply_diff_edit ''app.py'' ''x = 1'' ''y'' demo_dir demo_world) = Inr () \<and>
     read_local_file ((disk demo_world)\<lparr>data := (data (disk demo_world))(i := pre @ ''y'' @ post)\<rparr>)
       (path_join demo_dir ''app.py'') = Inr (pre @ ''y'' @ post)) \<and>
   read_local_file (disk (snd (apply_diff_edit ''app.py'' ''x = 1'' ''y'' demo_dir demo_world)))
     (path_join demo_dir ''app.py'') = Inr ''y; x = 1''"
proof -
  have h2: "\<exists>a b. ''x = 1; x = 1'' = a @ ''x = 1'' @ b"
  proof -
    have "''x = 1; x = 1'' = [] @ ''x = 1'' @ ''; x = 1''" by simp
    then show ?thesis by blast
  qed
  have v1: "utf8_valid ''x = 1''" and v2: "utf8_valid ''y''" by code_simp+
  have ncr: "CHR 0x0D \<notin> set ''y''" by simp
  have rb: "read_local_file (disk (snd (apply_diff_edit ''app.py'' ''x = 1'' ''y'' demo_dir demo_world)))
     (path_join demo_dir ''app.py'') = Inr ''y; x = 1''" by code_simp
  from apply_diff_edit_first_occurrence[OF demo_read_app h2 demo_dir_pathlib v1 v2]
  obtain pre post i w' where
    a: "''x = 1; x = 1'' = pre @ ''x = 1'' @ post"
    and b: "\<forall>pre' post'. ''x = 1; x = 1'' = pre' @ ''x = 1'' @ post' \<longrightarrow> length pre \<le> length pre'"
    and c: "apply_diff_edit ''app.py'' ''x = 1'' ''y'' demo_dir demo_world = (Inr (), w')"
    and d: "read_local_file ((disk demo_world)\<lparr>data := (data (disk demo_world))(i := pre @ ''y'' @ post)\<rparr>)
       (path_join demo_dir ''app.py'') = Inr (universal_newlines (pre @ ''y'' @ post))"
    and f: "CHR 0x0D \<notin> set ''y'' \<longrightarrow> universal_newlines (pre @ ''y'' @ post) = pre @ ''y'' @ post"
    by blast
  have c': "fst (apply_diff_edit ''app.py'' ''x = 1'' ''y'' demo_dir demo_world) = Inr ()"
    by (simp add: c)
  have d': "read_local_file ((disk demo_world)\<lparr>data := (data (disk demo_world))(i := pre @ ''y'' @ post)\<rparr>)
       (path_join demo_dir ''app.py'') = Inr (pre @ ''y'' @ post)"
    using d f ncr by simp
  show ?thesis
    apply (intro conjI)
          apply (rule demo_read_app)
         apply (rule h2)
        apply (rule demo_dir_pathlib)
       apply (rule v1)
      apply (rule v2)
     apply (rule exI[of _ pre], rule exI[of _ post], rule exI[of _ i])
    using a b c' d' apply blast
    apply (rule rb)
    done
qed

text \<open>
  The claim as stated fails on a file with carriage returns. The file \<^verbatim>\<open>win.txt\<close> holds
  \<^verbatim>\<open>a\r\nb\r\nb\<close>. Its content has \<^verbatim>\<open>\r\n\<close> as a substring, yet a patch of that snippet
  is answered with the mismatch report and the file stays as it is. And a patch of the
  first \<^verbatim>\<open>b\<close> into \<^verbatim>\<open>c\<close> leaves the file as \<^verbatim>\<open>a\nc\nb\<close>, which is not the content
  \<^verbatim>\<open>a\r\nc\r\nb\<close> with the first occurrence replaced: every line end was rewritten.
\<close>

theorem apply_diff_edit_crlf_counterexample:
  "data (disk crlf_world) 1 = crlf_text \<and>
   str_contains [CHR 0x0D, CHR 0x0A] crlf_text \<and>
   fst (apply_diff_edit ''win.txt'' [CHR 0x0D, CHR 0x0A] ''; '' demo_dir crlf_world) = Inr () \<and>
   data (disk (snd (apply_diff_edit ''win.txt'' [CHR 0x0D, CHR 0x0A] ''; '' demo_dir crlf_world))) 1
     = crlf_text \<and>
   hd (console (snd (apply_diff_edit ''win.txt'' [CHR 0x0D, CHR 0x0A] ''; '' demo_dir crlf_world))) =
     Print (''[yellow]'' @ warn_mark @ ''[/yellow] Original snippet not found in ''
            @ sq @ ''[cyan]projects/demo/win.txt[/cyan]'' @ sq @ ''. No changes made.'') \<and>
   str_contains ''b'' crlf_text \<and>
   fst (apply_diff_edit ''win.txt'' ''b'' ''c'' demo_dir crlf_world) = Inr () \<and>
   data (disk (snd (apply_diff_edit ''win.txt'' ''b'' ''c'' demo_dir crlf_world))) 1
     = ''a'' @ [CHR 0x0A] @ ''c'' @ [CHR 0x0A] @ ''b'' \<and>
   replace_first ''b'' ''c'' crlf_text = ''a'' @ [CHR 0x0D, CHR 0x0A] @ ''c'' @ [CHR 0x0D, CHR 0x0A] @ ''b'' \<and>
   data (disk (snd (apply_diff_edit ''win.txt'' ''b'' ''c'' demo_dir crlf_world))) 1
     \<noteq> replace_first ''b'' ''c'' crlf_text"
  by code_simp

text \<open>
  Claim C2, amended. When the file's text does not have \<open>original_snippet\<close> as a
  substring, \<open>apply_diff_edit\<close> returns normally and changes nothing but the console:
  the disk and the history are as before, and the console shows the warning, the
  expected snippet and the actual content. When the read fails with FileNotFoundError
  it also changes nothing but the console, which then carries the different message
  "File not found for diff editing". Any other exception of the read leaves the
  function as it is, with nothing changed and nothing reported.
\<close>

theorem apply_diff_edit_mismatch_leaves_file:
  "(read_local_file (disk w) (path_join project_dir p) = Inr c0 \<and>
      \<not> (\<exists>a b. c0 = a @ original_snippet @ b) \<longrightarrow>
    apply_diff_edit p original_snippet new_snippet project_dir w =
      (Inr (), w\<lparr>console := console w @
         [Print (''[yellow]'' @ warn_mark @ ''[/yellow] Original snippet not found in ''
                 @ sq @ ''[cyan]'' @ path_str (path_join project_dir p) @ ''[/cyan]'' @ sq
                 @ ''. No changes made.''),
          Print (nl @ ''Expected snippet:''),
          Panel original_snippet ''Expected'',
          Print (nl @ ''Actual file content:''),
          Panel c0 ''Actual'']\<rparr>)) \<and>
   (read_local_file (disk w) (path_join project_dir p) = Inl FileNotFoundError \<longrightarrow>
    apply_diff_edit p original_snippet new_snippet project_dir w =
      (Inr (), w\<lparr>console := console w @
         [Print (''[red]'' @ cross_mark @ ''[/red] '' @ ''File not found for diff editing: ''
                 @ path_str (path_join project_dir p))]\<rparr>)) \<and>
   (read_local_file (disk w) (path_join project_dir p) = Inl e \<and> e \<noteq> FileNotFoundError \<longrightarrow>
    apply_diff_edit p original_snippet new_snippet project_dir w = (Inl e, w))"
  by (simp add: apply_diff_edit_def Let_def say_def str_contains_iff)

lemma demo_read_under_file:
  "read_local_file (disk demo_world) (path_join demo_dir ''app.py/x.py'') = Inl NotADirectoryError"
  by code_simp

theorem apply_diff_edit_mismatch_leaves_file_witness:
  "(read_local_file (disk demo_world) (path_join demo_dir ''app.py'') = Inr ''x = 1; x = 1'' \<and>
    \<not> (\<exists>a b. ''x = 1; x = 1'' = a @ ''z'' @ b) \<and>
    apply_diff_edit ''app.py'' ''z'' ''y'' demo_dir demo_world =
      (Inr (), demo_world\<lparr>console := console demo_world @
         [Print (''[yellow]'' @ warn_mark @ ''[/yellow] Original snippet not found in ''
                 @ sq @ ''[cyan]'' @ path_str (path_join demo_dir ''app.py'') @ ''[/cyan]'' @ sq
                 @ ''. No changes made.''),
          Print (nl @ ''Expected snippet:''),
          Panel ''z'' ''Expected'',
          Print (nl @ ''Actual file content:''),
          Panel ''x = 1; x = 1'' ''Actual'']\<rparr>)) \<and>
   (read_local_file (disk demo_world) (path_join demo_dir ''nope.py'') = Inl FileNotFoundError \<and>
    apply_diff_edit ''nope.py'' ''z'' ''y'' demo_dir demo_world =
      (Inr (), demo_world\<lparr>console := console demo_world @
         [Print (''[red]'' @ cross_mark @ ''[/red] '' @ ''File not found for diff editing: ''
                 @ path_str (path_join demo_dir ''nope.py''))]\<rparr>)) \<and>
   (read_local_file (disk demo_world) (path_join demo_dir ''app.py/x.py'') = Inl NotADirectoryError \<and>
    apply_diff_edit ''app.py/x.py'' ''z'' ''y'' demo_dir demo_world = (Inl NotADirectoryError, demo_world))"
proof -
  have nz: "\<not> (\<exists>a b. ''x = 1; x = 1'' = a @ ''z'' @ b)"
  proof -
    have "\<not> str_contains ''z'' ''x = 1; x = 1''" by code_simp
    then show ?thesis by (simp only: str_contains_iff not_False_eq_True)
  qed
  have ne: "NotADirectoryError \<noteq> FileNotFoundError" by simp
  from apply_diff_edit_mismatch_leaves_file
         [of demo_world demo_dir "''app.py''" "''x = 1; x = 1''" "''z''" "''y''"]
       apply_diff_edit_mismatch_leaves_file
         [of demo_world demo_dir "''nope.py''" "''x = 1; x = 1''" "''z''" "''y''"]
       apply_diff_edit_mismatch_leaves_file
         [of demo_world demo_dir "''app.py/x.py''" "''x = 1; x = 1''" "''z''" "''y''" NotADirectoryError]
       demo_read_app demo_read_missing demo_read_under_file nz ne
  show ?thesis by blast
qed

text \<open>
  The claim as stated fails where the target does not exist because a directory of its
  path is a regular file: nothing exists at \<^verbatim>\<open>projects/demo/app.py/x.py\<close>, the read
  raises NotADirectoryError, which the handler for FileNotFoundError does not catch,
  and \<open>apply_diff_edit\<close> ends with that exception and reports nothing.
\<close>

theorem apply_diff_edit_not_a_directory_counterexample:
  "\<not> path_exists (disk demo_world) (path_join demo_dir ''app.py/x.py'') \<and>
   fst (apply_diff_edit ''app.py/x.py'' ''z'' ''y'' demo_dir demo_world) = Inl NotADirectoryError \<and>
   console (snd (apply_diff_edit ''app.py/x.py'' ''z'' ''y'' demo_dir demo_world)) = []"
  by code_simp

text \<open>
  Claim C9, amended. With an empty \<open>original_snippet\<close> the substring test holds for
  every text \<open>t\<close>, so \<open>apply_diff_edit\<close> takes the applied branch on every file that
  reads as a text, and for a new snippet \<open>r\<close> that UTF-8 can encode the file then holds
  \<open>r @ t\<close>: the new snippet in front of the old text. The text \<open>t\<close> is what the read
  returns, the bytes of the file with \<^verbatim>\<open>\r\n\<close> and \<^verbatim>\<open>\r\<close> turned into \<^verbatim>\<open>\n\<close>.
\<close>

theorem apply_diff_edit_empty_snippet_prepends:
  assumes "read_local_file (disk w) (path_join project_dir p) = Inr t"
      and "pathlib_path project_dir"
      and "utf8_valid r"
  shows "str_contains [] t \<and>
   (\<exists>i n. universal_newlines (data (disk w) i) = t \<and>
     normalize_path (disk w) (path_str (path_join project_dir p)) = Inr n \<and>
     apply_diff_edit p [] r project_dir w =
       (Inr (), w\<lparr>disk := (disk w)\<lparr>data := (data (disk w))(i := r @ t)\<rparr>,
          conversation_history := conversation_history w @
            [\<lparr>role = Assistant,
              content = check_mark @ '' Created/updated file at '' @ sq
                        @ path_str (path_join project_dir p) @ sq\<rparr>,
             \<lparr>role = System, content = file_marker n @ '':'' @ nl @ nl @ r @ t\<rparr>,
             \<lparr>role = Assistant,
              content = check_mark @ '' Applied diff edit to '' @ sq
                        @ path_str (path_join project_dir p) @ sq\<rparr>],
          console := console w @
            [Print (''[green]'' @ check_mark @ ''[/green] Created/updated file at ''
                    @ sq @ ''[cyan]'' @ path_str (path_join project_dir p) @ ''[/cyan]'' @ sq),
             Print (''[green]'' @ check_mark @ ''[/green] Applied diff edit to ''
                    @ sq @ ''[cyan]'' @ path_str (path_join project_dir p) @ ''[/cyan]'' @ sq)]\<rparr>) \<and>
     read_local_file ((disk w)\<lparr>data := (data (disk w))(i := r @ t)\<rparr>)
       (path_join project_dir p) = Inr (universal_newlines (r @ t)) \<and>
     (CHR 0x0D \<notin> set r \<longrightarrow> universal_newlines (r @ t) = r @ t))"
proof -
  have sc: "str_contains [] t" by (rule str_contains_empty)
  from read_local_file_text[OF assms(1)] have vt: "utf8_valid t" and nc: "CHR 0x0D \<notin> set t"
    by blast+
  have enc: "utf8_valid (replace_first [] r t)"
    using vt assms(3) by (simp add: replace_first_empty utf8_valid_append)
  have id: "CHR 0x0D \<notin> set r \<longrightarrow> universal_newlines (r @ t) = r @ t"
    using nc by (auto intro: universal_newlines_id)
  from apply_diff_edit_applied[OF assms(1) sc pathlib_path_join[OF assms(2)] enc]
  show ?thesis using sc id by (simp only: replace_first_empty simp_thms) blast
qed

theorem apply_diff_edit_empty_snippet_prepends_witness:
  "read_local_file (disk demo_world) (path_join demo_dir ''app.py'') = Inr ''x = 1; x = 1'' \<and>
   pathlib_path demo_dir \<and> utf8_valid ''# new'' \<and>
   str_contains [] ''x = 1; x = 1'' \<and>
   (\<exists>i. fst (apply_diff_edit ''app.py'' [] ''# new'' demo_dir demo_world) = Inr () \<and>
     read_local_file ((disk demo_world)\<lparr>data := (data (disk demo_world))(i := ''# new'' @ ''x = 1; x = 1'')\<rparr>)
       (path_join demo_dir ''app.py'') = Inr (''# new'' @ ''x = 1; x = 1'')) \<and>
   read_local_file (disk (snd (apply_diff_edit ''app.py'' [] ''# new'' demo_dir demo_world)))
     (path_join demo_dir ''app.py'') = Inr ''# newx = 1; x = 1''"
proof -
  have v: "utf8_valid ''# new''" by code_simp
  have ncr: "CHR 0x0D \<notin> set ''# new''" by simp
  have rb: "read_local_file (disk (snd (apply_diff_edit ''app.py'' [] ''# new'' demo_dir demo_world)))
     (path_join demo_dir ''app.py'') = Inr ''# newx = 1; x = 1''" by code_simp
  from apply_diff_edit_empty_snippet_prepends[OF demo_read_app demo_dir_pathlib v]
  obtain i w' where sc: "str_contains [] ''x = 1; x = 1''"
    and c: "apply_diff_edit ''app.py'' [] ''# new'' demo_dir demo_world = (Inr (), w')"
    and d: "read_local_file ((disk demo_world)\<lparr>data := (data (disk demo_world))(i := ''# new'' @ ''x = 1; x = 1'')\<rparr>)
       (path_join demo_dir ''app.py'') = Inr (universal_newlines (''# new'' @ ''x = 1; x = 1''))"
    and f: "CHR 0x0D \<notin> set ''# new'' \<longrightarrow>
       universal_newlines (''# new'' @ ''x = 1; x = 1'') = ''# new'' @ ''x = 1; x = 1''"
    by blast
  have c': "fst (apply_diff_edit ''app.py'' [] ''# new'' demo_dir demo_world) = Inr ()"
    by (simp add: c)
  have d': "read_local_file ((disk demo_world)\<lparr>data := (data (disk demo_world))(i := ''# new'' @ ''x = 1; x = 1'')\<rparr>)
       (path_join demo_dir ''app.py'') = Inr (''# new'' @ ''x = 1; x = 1'')"
    using d f ncr by (simp only: simp_thms)
  show ?thesis
    apply (intro conjI)
         apply (rule demo_read_app)
        apply (rule demo_dir_pathlib)
       apply (rule v)
      apply (rule sc)
     apply (rule exI[of _ i])
    using c' d' apply blast
    apply (rule rb)
    done
qed

text \<open>
  The claim as stated fails on a file with carriage returns: with the empty snippet and
  the new snippet \<^verbatim>\<open>#\<close>, the file \<^verbatim>\<open>a\r\nb\r\nb\<close> becomes \<^verbatim>\<open>#a\nb\nb\<close>, which is not the
  new snippet followed by the content the file had.
\<close>

theorem apply_diff_edit_empty_snippet_crlf_counterexample:
  "data (disk crlf_world) 1 = crlf_text \<and>
   fst (apply_diff_edit ''win.txt'' [] ''#'' demo_dir crlf_world) = Inr () \<and>
   data (disk (snd (apply_diff_edit ''win.txt'' [] ''#'' demo_dir crlf_world))) 1
     = ''#a'' @ [CHR 0x0A] @ ''b'' @ [CHR 0x0A] @ ''b'' \<and>
   data (disk (snd (apply_diff_edit ''win.txt'' [] ''#'' demo_dir crlf_world))) 1
     \<noteq> ''#'' @ crlf_text"
  by code_simp

section \<open>Absolute paths\<close>

lemma path_join_absolute: "prefix ''/'' p \<Longrightarrow> path_join d p = parse_path p"
  by (auto simp: path_join_def parse_path_def anchor_of_def prefix_def split: anchor.splits)

text \<open>
  A new entry in a directory: it is found where it was put, and every symbolic link and
  every directory of the tree is found where it was.
\<close>

lemma lookup_dir_head:
  "lookup n0 (butlast l) = Some (Dir d) \<Longrightarrow> l \<noteq> [] \<Longrightarrow> \<exists>es. n0 = Dir es"
  by (cases n0; cases l) (auto split: if_splits)

lemma lookup_put_node_new:
  "lookup n0 (butlast l) = Some (Dir d) \<Longrightarrow> lookup n0 l = None \<Longrightarrow> l \<noteq> [] \<Longrightarrow>
   lookup (put_node n0 l new) l = Some new"
proof (induction l arbitrary: n0)
  case Nil
  then show ?case by simp
next
  case (Cons c cs)
  from lookup_dir_head[OF Cons.prems(1,3)] obtain es where n0: "n0 = Dir es" by blast
  show ?case
  proof (cases "cs = []")
    case True
    with Cons.prems n0 have "map_of es c = None" by (auto split: option.splits)
    with True n0 show ?thesis by (simp add: map_add_def)
  next
    case False
    with Cons.prems(1) n0 obtain n1 where m: "map_of es c = Some n1"
      and b: "lookup n1 (butlast cs) = Some (Dir d)" by (auto split: option.splits)
    from Cons.prems(2) n0 m have nn: "lookup n1 cs = None" by simp
    from Cons.IH[OF b nn False] n0 m show ?thesis by (simp add: update_conv')
  qed
qed

lemma lookup_put_node_kept:
  "lookup n0 (butlast l) = Some (Dir d) \<Longrightarrow> lookup n0 l = None \<Longrightarrow> l \<noteq> [] \<Longrightarrow>
   (lookup n0 x = Some (Symlink t) \<longrightarrow> lookup (put_node n0 l new) x = Some (Symlink t)) \<and>
   (is_dir_node (lookup n0 x) \<longrightarrow> is_dir_node (lookup (put_node n0 l new) x))"
proof (induction l arbitrary: n0 x)
  case Nil
  then show ?case by simp
next
  case (Cons c cs)
  from lookup_dir_head[OF Cons.prems(1,3)] obtain es where n0: "n0 = Dir es" by blast
  show ?case
  proof (cases x)
    case Nil
    with n0 show ?thesis by (auto split: option.splits)
  next
    case x: (Cons c' xs)
    show ?thesis
    proof (cases "cs = []")
      case True
      with Cons.prems n0 have "map_of es c = None" by (auto split: option.splits)
      with True n0 x show ?thesis
        by (cases "map_of es c'") (auto simp: map_add_def)
    next
      case False
      with Cons.prems(1) n0 obtain n1 where m: "map_of es c = Some n1"
        and b: "lookup n1 (butlast cs) = Some (Dir d)" by (auto split: option.splits)
      from Cons.prems(2) n0 m have nn: "lookup n1 cs = None" by simp
      from Cons.IH[OF b nn False, of xs] n0 m x show ?thesis
        by (cases "c' = c") (auto simp: update_conv' split: option.splits)
    qed
  qed
qed

lemma put_node_dir:
  "lookup n0 (butlast l) = Some (Dir d) \<Longrightarrow> l \<noteq> [] \<Longrightarrow> \<exists>es'. put_node n0 l new = Dir es'"
proof -
  assume a: "lookup n0 (butlast l) = Some (Dir d)" "l \<noteq> []"
  from lookup_dir_head[OF a] obtain es where "n0 = Dir es" by blast
  with a(2) show ?thesis by (cases l) (auto split: option.splits)
qed

lemma lstat_add_entry:
  assumes "is_dir_node (lstat fs (butlast l))" and "lstat fs l = None" and "l \<noteq> []"
  shows "lstat (add_entry fs l new) l = Some new"
    and "lstat fs x = Some (Symlink t) \<Longrightarrow> lstat (add_entry fs l new) x = Some (Symlink t)"
    and "is_dir_node (lstat fs x) \<Longrightarrow> is_dir_node (lstat (add_entry fs l new) x)"
    and "cwd (add_entry fs l new) = cwd fs"
proof -
  from assms(1) obtain d where b: "lookup (Dir (root fs)) (butlast l) = Some (Dir d)"
    by (auto simp: lstat_def is_dir_node_iff)
  from assms(2) have n: "lookup (Dir (root fs)) l = None" by (simp add: lstat_def)
  from put_node_dir[OF b assms(3)] obtain es' where p: "put_node (Dir (root fs)) l new = Dir es'"
    by blast
  have ls: "\<And>y. lstat (add_entry fs l new) y = lookup (put_node (Dir (root fs)) l new) y"
    using p by (simp add: add_entry_def lstat_def)
  show "lstat (add_entry fs l new) l = Some new"
    using lookup_put_node_new[OF b n assms(3)] by (simp add: ls)
  show "lstat fs x = Some (Symlink t) \<Longrightarrow> lstat (add_entry fs l new) x = Some (Symlink t)"
    unfolding ls using lookup_put_node_kept[OF b n assms(3), of x t new] by (simp add: lstat_def)
  show "is_dir_node (lstat fs x) \<Longrightarrow> is_dir_node (lstat (add_entry fs l new) x)"
    unfolding ls using lookup_put_node_kept[OF b n assms(3), of x t new] by (simp add: lstat_def)
  show "cwd (add_entry fs l new) = cwd fs"
    using p by (simp add: add_entry_def)
qed

text \<open>The lookup that ended at the missing entry now ends at the new file.\<close>

lemma walk_add_entry:
  assumes d: "is_dir_node (lstat fs (butlast l))" and n: "lstat fs l = None" and ne: "l \<noteq> []"
  shows "walk fs loc ps = Inr (b, l, None) \<Longrightarrow>
         walk (add_entry fs l (File k)) loc ps = Inr (b, l, Some (File k))"
proof (induction ps arbitrary: loc)
  case Nil
  with lstat_add_entry(1)[OF d n ne] show ?case by simp
next
  case (Cons c cs)
  let ?fs2 = "add_entry fs l (File k)"
  note new = lstat_add_entry(1)[OF d n ne, of "File k"]
  note link = lstat_add_entry(2)[OF d n ne, of _ _ "File k"]
  note dir = lstat_add_entry(3)[OF d n ne, of _ "File k"]
  show ?case
  proof (cases "c = ''..''")
    case True
    with Cons show ?thesis by simp
  next
    case False
    show ?thesis
    proof (cases "lstat fs (loc @ [c])")
      case None
      with Cons.prems False have cs: "cs = []" and l: "l = loc @ [c]" and b: "b = False"
        by (auto simp: follow_def split: if_splits)
      from new l have "follow ?fs2 (loc @ [c]) = (False, loc @ [c], Some (File k))"
        by (simp add: follow_def)
      with False cs l b show ?thesis by simp
    next
      case (Some m)
      show ?thesis
      proof (cases m)
        case (File i)
        with Some Cons.prems False show ?thesis
          by (auto simp: follow_def split: if_splits)
      next
        case (Dir es)
        with Some Cons.prems False have cs: "cs \<noteq> []"
          and w: "walk fs (loc @ [c]) cs = Inr (b, l, None)"
          by (auto simp: follow_def split: if_splits)
        from dir[of "loc @ [c]"] Some Dir obtain es'
          where "lstat ?fs2 (loc @ [c]) = Some (Dir es')" by (auto simp: is_dir_node_iff)
        then have "follow ?fs2 (loc @ [c]) = (False, loc @ [c], Some (Dir es'))"
          by (simp add: follow_def)
        with Cons.IH[OF w] False cs show ?thesis by simp
      next
        case (Symlink t)
        from link[of "loc @ [c]" t] Some Symlink
        have l2: "lstat ?fs2 (loc @ [c]) = Some (Symlink t)" by simp
        show ?thesis
        proof (cases "lstat fs t")
          case None
          with Some Symlink Cons.prems False have cs: "cs = []" and l: "l = t" and b: "b = True"
            by (auto simp: follow_def split: if_splits)
          from new l l2 have "follow ?fs2 (loc @ [c]) = (True, t, Some (File k))"
            by (simp add: follow_def)
          with False cs l b show ?thesis by simp
        next
          case st: (Some m')
          show ?thesis
          proof (cases m')
            case (Dir es)
            with Some Symlink st Cons.prems False have cs: "cs \<noteq> []"
              and w: "walk fs t cs = Inr (b, l, None)"
              by (auto simp: follow_def split: if_splits)
            from dir[of t] st Dir obtain es' where "lstat ?fs2 t = Some (Dir es')"
              by (auto simp: is_dir_node_iff)
            with l2 have "follow ?fs2 (loc @ [c]) = (True, t, Some (Dir es'))"
              by (simp add: follow_def)
            with Cons.IH[OF w] False cs show ?thesis by simp
          qed (use Some Symlink st Cons.prems False in \<open>auto simp: follow_def split: if_splits\<close>)
        qed
      qed
    qed
  qed
qed

lemma namei_add_entry:
  assumes nm: "namei fs p = Inr (b, l, None)"
      and d: "is_dir_node (lstat fs (butlast l))" and ne: "l \<noteq> []"
  shows "namei (add_entry fs l (File k)) p = Inr (b, l, Some (File k))"
proof -
  have nn: "\<not> has_nul p" using nm by (auto simp: namei_def split: if_splits)
  have n: "lstat fs l = None"
  proof (cases "anchor p = Relative")
    case True
    with nm nn have "walk fs (cwd fs) (parts p) = Inr (b, l, None)"
      by (auto simp: namei_def split: if_splits)
    from walk_lstat[OF this] show ?thesis by simp
  next
    case False
    with nm nn have "walk fs [] (parts p) = Inr (b, l, None)"
      by (auto simp: namei_def split: anchor.splits)
    from walk_lstat[OF this] show ?thesis by simp
  qed
  show ?thesis
  proof (cases "anchor p = Relative")
    case True
    with nm nn have cd: "is_dir_node (lstat fs (cwd fs))"
      and w: "walk fs (cwd fs) (parts p) = Inr (b, l, None)"
      by (auto simp: namei_def split: if_splits)
    from lstat_add_entry(3,4)[OF d n ne] cd
    have "is_dir_node (lstat (add_entry fs l (File k)) (cwd (add_entry fs l (File k))))" by simp
    with walk_add_entry[OF d n ne w] lstat_add_entry(4)[OF d n ne] True nn show ?thesis
      by (simp add: namei_def)
  next
    case False
    with nm nn have w: "walk fs [] (parts p) = Inr (b, l, None)"
      by (auto simp: namei_def split: anchor.splits)
    from walk_add_entry[OF d n ne w] False nn show ?thesis
      by (auto simp: namei_def split: anchor.splits)
  qed
qed

lemma lstat_next_ino [simp]: "lstat (fs\<lparr>next_ino := k\<rparr>) l = lstat fs l"
  by (simp add: lstat_def)

lemma follow_next_ino [simp]: "follow (fs\<lparr>next_ino := k\<rparr>) l = follow fs l"
  by (simp add: follow_def split: option.splits node.splits)

lemma walk_next_ino [simp]: "walk (fs\<lparr>next_ino := k\<rparr>) loc ps = walk fs loc ps"
  by (induction ps arbitrary: loc) (auto split: prod.splits option.splits node.splits)

lemma namei_next_ino [simp]: "namei (fs\<lparr>next_ino := k\<rparr>) p = namei fs p"
  by (simp add: namei_def split: anchor.splits)

text \<open>What was written to a path is what the path reads as.\<close>

lemma write_file_read_back:
  assumes "write_file fs p c = (Inr (), fs')"
  shows "read_file fs' p = Inr (universal_newlines c)"
proof -
  from assms obtain i fs1 where o: "open_w fs p = Inr (i, fs1)" and v: "utf8_valid c"
    and fs': "fs' = fs1\<lparr>data := (data fs1)(i := c)\<rparr>"
    by (auto simp: write_file_def split: sum.splits if_splits)
  have "namei fs1 p = Inr (fst (projr (namei fs1 p)), fst (snd (projr (namei fs1 p))), Some (File i))"
  proof (cases "namei fs p")
    case (Inl e)
    with o show ?thesis by (simp add: open_w_def)
  next
    case (Inr r)
    obtain b l n where r: "r = (b, l, n)" by (cases r)
    show ?thesis
    proof (cases n)
      case None
      with o Inr r have d: "is_dir_node (lstat fs (butlast l))" and ne: "l \<noteq> []"
        and i: "i = next_ino fs"
        and fs1: "fs1 = (add_entry fs l (File (next_ino fs)))
                    \<lparr>data := (data fs)(next_ino fs := []), next_ino := Suc (next_ino fs)\<rparr>"
        by (auto simp: open_w_def split: if_splits)
      from Inr r None have "namei fs p = Inr (b, l, None)" by simp
      from namei_add_entry[OF this d ne, of "next_ino fs"] fs1 i show ?thesis by simp
    next
      case (Some m)
      with o Inr r show ?thesis
        by (cases m) (auto simp: open_w_def)
    qed
  qed
  then obtain b l where "namei fs1 p = Inr (b, l, Some (File i))" by blast
  with v fs' show ?thesis by (simp add: read_file_def)
qed

lemma create_file_read_back:
  assumes "create_file p c project_dir w = (Inr (), w')"
  shows "read_local_file (disk w') (path_join project_dir p) = Inr (universal_newlines c)"
proof -
  let ?fp = "path_join project_dir p"
  from assms obtain fs1 fs2 where w: "write_file fs1 ?fp c = (Inr (), fs2)"
    and d: "disk w' = fs2"
    by (auto simp: create_file_def Let_def say_def append_message_def
             split: sum.splits prod.splits)
  from write_file_read_back[OF w] d show ?thesis by (simp add: read_local_file_def)
qed

text \<open>
  Claim C6, amended. For a path string \<open>p\<close> that starts with a slash,
  \<^verbatim>\<open>project_dir / p\<close> is \<open>p\<close> itself, parsed, with an anchor at the root, so \<open>create_file\<close>
  and \<open>apply_diff_edit\<close> do the same whatever the project directory is, and what they
  do, they do at \<open>p\<close>. Whenever \<open>create_file\<close> returns, the file at \<open>p\<close> reads as the
  content written; where a text file exists at \<open>p\<close>, it returns and the inode of that
  file holds the content. \<open>apply_diff_edit\<close> reads \<open>p\<close>: when opening \<open>p\<close> raises
  FileNotFoundError it reports \<open>p\<close> as not found, and when \<open>p\<close> reads as a text with the
  snippet it returns, the inode of the file at \<open>p\<close> holds the patched text and \<open>p\<close>
  reads as it. Where the file lands is where \<open>p\<close> points, under the project directory
  or not.
\<close>

theorem absolute_path_discards_project_dir:
  assumes "prefix ''/'' p"
  shows "path_join project_dir p = parse_path p \<and>
         anchor (path_join project_dir p) \<noteq> Relative \<and>
         create_file p c project_dir w = create_file p c other_dir w \<and>
         apply_diff_edit p original_snippet new_snippet project_dir w =
           apply_diff_edit p original_snippet new_snippet other_dir w \<and>
         (create_file p c project_dir w = (Inr (), w') \<longrightarrow>
            read_local_file (disk w') (parse_path p) = Inr (universal_newlines c)) \<and>
         (read_local_file (disk w) (parse_path p) = Inr t \<and> utf8_valid c \<longrightarrow>
            (\<exists>i. universal_newlines (data (disk w) i) = t \<and>
               fst (create_file p c project_dir w) = Inr () \<and>
               disk (snd (create_file p c project_dir w)) =
                 (disk w)\<lparr>data := (data (disk w))(i := c)\<rparr>)) \<and>
         (read_local_file (disk w) (parse_path p) = Inl FileNotFoundError \<longrightarrow>
            apply_diff_edit p original_snippet new_snippet project_dir w =
              (Inr (), w\<lparr>console := console w @
                 [Print (''[red]'' @ cross_mark @ ''[/red] '' @ ''File not found for diff editing: ''
                         @ path_str (parse_path p))]\<rparr>)) \<and>
         (read_local_file (disk w) (parse_path p) = Inr t \<and> str_contains original_snippet t \<and>
          utf8_valid (replace_first original_snippet new_snippet t) \<longrightarrow>
            (\<exists>i. universal_newlines (data (disk w) i) = t \<and>
               fst (apply_diff_edit p original_snippet new_snippet project_dir w) = Inr () \<and>
               disk (snd (apply_diff_edit p original_snippet new_snippet project_dir w)) =
                 (disk w)\<lparr>data := (data (disk w))(i := replace_first original_snippet new_snippet t)\<rparr> \<and>
               read_local_file
                 (disk (snd (apply_diff_edit p original_snippet new_snippet project_dir w)))
                 (parse_path p) =
                 Inr (universal_newlines (replace_first original_snippet new_snippet t))))"
proof -
  have j: "\<And>d. path_join d p = parse_path p" using assms by (rule path_join_absolute)
  have a: "anchor (parse_path p) \<noteq> Relative"
    using assms by (auto simp: parse_path_def anchor_of_def prefix_def)
  have pl: "pathlib_path (path_join project_dir p)" by (simp add: j pathlib_parse_path)
  have cf: "\<And>c' w'. create_file p c' project_dir w' = create_file p c' other_dir w'"
    by (simp add: j create_file_def)
  have ad: "apply_diff_edit p original_snippet new_snippet project_dir w =
            apply_diff_edit p original_snippet new_snippet other_dir w"
    by (simp add: apply_diff_edit_def j cf Let_def split: sum.splits)
  have rb: "create_file p c project_dir w = (Inr (), w') \<longrightarrow>
            read_local_file (disk w') (parse_path p) = Inr (universal_newlines c)"
    using create_file_read_back[of p c project_dir w w'] by (simp add: j)
  have ex: "read_local_file (disk w) (parse_path p) = Inr t \<and> utf8_valid c \<longrightarrow>
            (\<exists>i. universal_newlines (data (disk w) i) = t \<and>
               fst (create_file p c project_dir w) = Inr () \<and>
               disk (snd (create_file p c project_dir w)) =
                 (disk w)\<lparr>data := (data (disk w))(i := c)\<rparr>)"
  proof
    assume h: "read_local_file (disk w) (parse_path p) = Inr t \<and> utf8_valid c"
    then obtain b l i where nm: "namei (disk w) (path_join project_dir p) = Inr (b, l, Some (File i))"
      and t: "t = universal_newlines (data (disk w) i)"
      using read_file_Inr[of "disk w" "parse_path p" t] by (auto simp: read_local_file_def j)
    from create_file_existing[OF nm pl] h t show "\<exists>i. universal_newlines (data (disk w) i) = t \<and>
               fst (create_file p c project_dir w) = Inr () \<and>
               disk (snd (create_file p c project_dir w)) =
                 (disk w)\<lparr>data := (data (disk w))(i := c)\<rparr>"
      by (intro exI[of _ i]) simp
  qed
  have nf: "read_local_file (disk w) (parse_path p) = Inl FileNotFoundError \<longrightarrow>
            apply_diff_edit p original_snippet new_snippet project_dir w =
              (Inr (), w\<lparr>console := console w @
                 [Print (''[red]'' @ cross_mark @ ''[/red] '' @ ''File not found for diff editing: ''
                         @ path_str (parse_path p))]\<rparr>)"
    by (simp add: apply_diff_edit_def Let_def say_def j)
  have ap: "read_local_file (disk w) (parse_path p) = Inr t \<and> str_contains original_snippet t \<and>
          utf8_valid (replace_first original_snippet new_snippet t) \<longrightarrow>
            (\<exists>i. universal_newlines (data (disk w) i) = t \<and>
               fst (apply_diff_edit p original_snippet new_snippet project_dir w) = Inr () \<and>
               disk (snd (apply_diff_edit p original_snippet new_snippet project_dir w)) =
                 (disk w)\<lparr>data := (data (disk w))(i := replace_first original_snippet new_snippet t)\<rparr> \<and>
               read_local_file
                 (disk (snd (apply_diff_edit p original_snippet new_snippet project_dir w)))
                 (parse_path p) =
                 Inr (universal_newlines (replace_first original_snippet new_snippet t)))"
  proof
    assume h: "read_local_file (disk w) (parse_path p) = Inr t \<and> str_contains original_snippet t \<and>
          utf8_valid (replace_first original_snippet new_snippet t)"
    then have rd: "read_local_file (disk w) (path_join project_dir p) = Inr t" by (simp add: j)
    from h have sc: "str_contains original_snippet t"
      and enc: "utf8_valid (replace_first original_snippet new_snippet t)" by blast+
    from apply_diff_edit_applied[OF rd sc pl enc] obtain i where
      "universal_newlines (data (disk w) i) = t"
      "fst (apply_diff_edit p original_snippet new_snippet project_dir w) = Inr ()"
      "disk (snd (apply_diff_edit p original_snippet new_snippet project_dir w)) =
         (disk w)\<lparr>data := (data (disk w))(i := replace_first original_snippet new_snippet t)\<rparr>"
      "read_local_file ((disk w)\<lparr>data := (data (disk w))(i := replace_first original_snippet new_snippet t)\<rparr>)
         (path_join project_dir p) =
         Inr (universal_newlines (replace_first original_snippet new_snippet t))"
      by auto
    then show "\<exists>i. universal_newlines (data (disk w) i) = t \<and>
               fst (apply_diff_edit p original_snippet new_snippet project_dir w) = Inr () \<and>
               disk (snd (apply_diff_edit p original_snippet new_snippet project_dir w)) =
                 (disk w)\<lparr>data := (data (disk w))(i := replace_first original_snippet new_snippet t)\<rparr> \<and>
               read_local_file
                 (disk (snd (apply_diff_edit p original_snippet new_snippet project_dir w)))
                 (parse_path p) =
                 Inr (universal_newlines (replace_first original_snippet new_snippet t))"
      by (intro exI[of _ i]) (simp add: j)
  qed
  show ?thesis
    using a j cf ad rb ex nf ap by (simp only: simp_thms)
qed

lemma demo_absolute:
  "fst (create_file ''/tmp/evil.txt'' ''boo'' demo_dir demo_world) = Inr ()"
  "parse_path ''/tmp/evil.txt'' = Path Root [''tmp'', ''evil.txt'']"
  "universal_newlines ''boo'' = ''boo''"
  "\<not> path_exists (disk (snd (create_file ''/tmp/evil.txt'' ''boo'' demo_dir demo_world)))
     (Path Relative [''projects'', ''demo'', ''tmp'', ''evil.txt''])"
  "read_local_file (disk demo_world) (parse_path ''/home/u/notes.md'') = Inr ''todo''"
  "str_contains ''todo'' ''todo''"
  "replace_first ''todo'' ''done'' ''todo'' = ''done''"
  "utf8_valid ''done''"
  "universal_newlines ''done'' = ''done''"
  "read_local_file (disk demo_world) (parse_path ''/tmp/none.txt'') = Inl FileNotFoundError"
  "path_str (parse_path ''/tmp/none.txt'') = ''/tmp/none.txt''"
  by code_simp+

theorem absolute_path_discards_project_dir_witness:
  "prefix ''/'' ''/tmp/evil.txt'' \<and>
   path_join demo_dir ''/tmp/evil.txt'' = Path Root [''tmp'', ''evil.txt''] \<and>
   fst (create_file ''/tmp/evil.txt'' ''boo'' demo_dir demo_world) = Inr () \<and>
   read_local_file (disk (snd (create_file ''/tmp/evil.txt'' ''boo'' demo_dir demo_world)))
     (Path Root [''tmp'', ''evil.txt'']) = Inr ''boo'' \<and>
   \<not> path_exists (disk (snd (create_file ''/tmp/evil.txt'' ''boo'' demo_dir demo_world)))
     (Path Relative [''projects'', ''demo'', ''tmp'', ''evil.txt'']) \<and>
   prefix ''/'' ''/home/u/notes.md'' \<and>
   read_local_file (disk demo_world) (parse_path ''/home/u/notes.md'') = Inr ''todo'' \<and>
   fst (apply_diff_edit ''/home/u/notes.md'' ''todo'' ''done'' demo_dir demo_world) = Inr () \<and>
   read_local_file (disk (snd (apply_diff_edit ''/home/u/notes.md'' ''todo'' ''done'' demo_dir demo_world)))
     (parse_path ''/home/u/notes.md'') = Inr ''done'' \<and>
   prefix ''/'' ''/tmp/none.txt'' \<and>
   read_local_file (disk demo_world) (parse_path ''/tmp/none.txt'') = Inl FileNotFoundError \<and>
   apply_diff_edit ''/tmp/none.txt'' ''todo'' ''done'' demo_dir demo_world =
     (Inr (), demo_world\<lparr>console := console demo_world @
        [Print (''[red]'' @ cross_mark @ ''[/red] '' @ ''File not found for diff editing: ''
                @ ''/tmp/none.txt'')]\<rparr>)"
proof -
  have h1: "prefix ''/'' ''/tmp/evil.txt''" and h2: "prefix ''/'' ''/home/u/notes.md''"
    and h3: "prefix ''/'' ''/tmp/none.txt''" by simp_all
  let ?c = "create_file ''/tmp/evil.txt'' ''boo'' demo_dir demo_world"
  have c: "?c = (Inr (), snd ?c)" using demo_absolute(1) by (simp add: prod_eq_iff)
  from absolute_path_discards_project_dir
         [OF h1, where project_dir = demo_dir and c = "''boo''" and w = demo_world and w' = "snd ?c"] c
  have j: "path_join demo_dir ''/tmp/evil.txt'' = parse_path ''/tmp/evil.txt''"
    and rb: "read_local_file (disk (snd ?c)) (parse_path ''/tmp/evil.txt'') = Inr (universal_newlines ''boo'')"
    by blast+
  from absolute_path_discards_project_dir
         [OF h2, where project_dir = demo_dir and w = demo_world and t = "''todo''"
            and original_snippet = "''todo''" and new_snippet = "''done''"]
       demo_absolute(5,6,7,8)
  obtain i where a1: "fst (apply_diff_edit ''/home/u/notes.md'' ''todo'' ''done'' demo_dir demo_world) = Inr ()"
    and a2: "read_local_file (disk (snd (apply_diff_edit ''/home/u/notes.md'' ''todo'' ''done'' demo_dir demo_world)))
               (parse_path ''/home/u/notes.md'') =
             Inr (universal_newlines (replace_first ''todo'' ''done'' ''todo''))"
    by (simp only: simp_thms) blast
  from absolute_path_discards_project_dir
         [OF h3, where project_dir = demo_dir and w = demo_world
            and original_snippet = "''todo''" and new_snippet = "''done''"]
       demo_absolute(10)
  have nf: "apply_diff_edit ''/tmp/none.txt'' ''todo'' ''done'' demo_dir demo_world =
     (Inr (), demo_world\<lparr>console := console demo_world @
        [Print (''[red]'' @ cross_mark @ ''[/red] '' @ ''File not found for diff editing: ''
                @ path_str (parse_path ''/tmp/none.txt''))]\<rparr>)"
    by blast
  show ?thesis
    using h1 h2 h3 j rb a1 a2 nf demo_absolute
    by (simp only: simp_thms)
qed

text \<open>
  The claim as stated fails in its last part: an absolute path need not lie outside the
  project directory. With the project directory \<^verbatim>\<open>projects/demo\<close> under \<^verbatim>\<open>/home/u\<close>, the
  absolute path \<^verbatim>\<open>/home/u/projects/demo/new.txt\<close> lands in the project directory, where
  the relative path \<^verbatim>\<open>new.txt\<close> finds it.
\<close>

theorem absolute_path_inside_project_counterexample:
  "prefix ''/'' ''/home/u/projects/demo/new.txt'' \<and>
   normalize_path (disk demo_world) (path_str demo_dir) = Inr ''/home/u/projects/demo'' \<and>
   fst (create_file ''/home/u/projects/demo/new.txt'' ''boo'' demo_dir demo_world) = Inr () \<and>
   read_local_file
     (disk (snd (create_file ''/home/u/projects/demo/new.txt'' ''boo'' demo_dir demo_world)))
     (path_join demo_dir ''new.txt'') = Inr ''boo'' \<and>
   normalize_path
     (disk (snd (create_file ''/home/u/projects/demo/new.txt'' ''boo'' demo_dir demo_world)))
     (path_str (path_join demo_dir ''new.txt'')) = Inr ''/home/u/projects/demo/new.txt''"
  by code_simp

section \<open>Project directory names\<close>

lemma probe_least:
  assumes "\<not> path_exists fs (path_join projects_dir (base_name @ ''-'' @ str_nat k))"
      and "\<forall>j. k0 \<le> j \<and> j < k \<longrightarrow>
             path_exists fs (path_join projects_dir (base_name @ ''-'' @ str_nat j))"
      and "k0 \<le> k"
  shows "probe fs projects_dir base_name k0 = Some (base_name @ ''-'' @ str_nat k)"
  using assms
proof (induction "k - k0" arbitrary: k0)
  case 0
  then have "k0 = k" by simp
  with "0.prems"(1) show ?case by (subst probe.simps) simp
next
  case (Suc d)
  then have lt: "k0 < k" by simp
  with Suc.prems(2) have ex: "path_exists fs (path_join projects_dir (base_name @ ''-'' @ str_nat k0))"
    by simp
  have "probe fs projects_dir base_name (k0 + 1) = Some (base_name @ ''-'' @ str_nat k)"
  proof (rule Suc.hyps(1))
    show "d = k - (k0 + 1)" using Suc.hyps(2) by simp
    show "\<not> path_exists fs (path_join projects_dir (base_name @ ''-'' @ str_nat k))"
      by (rule Suc.prems(1))
    show "\<forall>j. k0 + 1 \<le> j \<and> j < k \<longrightarrow>
            path_exists fs (path_join projects_dir (base_name @ ''-'' @ str_nat j))"
      using Suc.prems(2) by simp
    show "k0 + 1 \<le> k" using lt by simp
  qed
  with ex show ?case by (subst probe.simps) simp
qed

text \<open>
  Claim C7, amended. \<open>get_unique_project_dir\<close> returns the base name when nothing of
  that name exists under the projects directory, be it a directory, a file or a link
  to one; when something of that name exists and \<open>k\<close> is the least positive number
  whose name \<^verbatim>\<open>base-k\<close> does not exist, the loop stops and returns \<^verbatim>\<open>base-k\<close>. The result
  is a function of the file system and the arguments alone.
\<close>

theorem get_unique_project_dir_first_unused:
  "(\<not> path_exists fs (path_join projects_dir base_name) \<longrightarrow>
      get_unique_project_dir fs base_name projects_dir = Some base_name) \<and>
   (path_exists fs (path_join projects_dir base_name) \<and> 0 < k \<and>
    \<not> path_exists fs (path_join projects_dir (base_name @ ''-'' @ str_nat k)) \<and>
    (\<forall>j. 0 < j \<and> j < k \<longrightarrow>
       path_exists fs (path_join projects_dir (base_name @ ''-'' @ str_nat j))) \<longrightarrow>
      get_unique_project_dir fs base_name projects_dir = Some (base_name @ ''-'' @ str_nat k))"
proof (intro conjI impI)
  assume "\<not> path_exists fs (path_join projects_dir base_name)"
  then show "get_unique_project_dir fs base_name projects_dir = Some base_name"
    by (simp add: get_unique_project_dir_def)
next
  assume a: "path_exists fs (path_join projects_dir base_name) \<and> 0 < k \<and>
    \<not> path_exists fs (path_join projects_dir (base_name @ ''-'' @ str_nat k)) \<and>
    (\<forall>j. 0 < j \<and> j < k \<longrightarrow>
       path_exists fs (path_join projects_dir (base_name @ ''-'' @ str_nat j)))"
  then have "probe fs projects_dir base_name 1 = Some (base_name @ ''-'' @ str_nat k)"
    by (intro probe_least) auto
  with a show "get_unique_project_dir fs base_name projects_dir = Some (base_name @ ''-'' @ str_nat k)"
    by (simp add: get_unique_project_dir_def)
qed

theorem get_unique_project_dir_first_unused_witness:
  "\<not> path_exists (projects_fs []) (path_join (Path Relative [''projects'']) ''foo'') \<and>
   get_unique_project_dir (projects_fs []) ''foo'' (Path Relative [''projects'']) = Some ''foo'' \<and>
   path_exists (projects_fs [(''foo'', Dir []), (''foo-1'', Dir [])]) (path_join (Path Relative [''projects'']) ''foo'') \<and>
   path_exists (projects_fs [(''foo'', Dir []), (''foo-1'', Dir [])]) (path_join (Path Relative [''projects'']) ''foo-1'') \<and>
   \<not> path_exists (projects_fs [(''foo'', Dir []), (''foo-1'', Dir [])]) (path_join (Path Relative [''projects'']) ''foo-2'') \<and>
   get_unique_project_dir (projects_fs [(''foo'', Dir []), (''foo-1'', Dir [])]) ''foo'' (Path Relative [''projects'']) = Some ''foo-2''"
proof -
  let ?pd = "Path Relative [''projects'']"
  have s1: "str_nat 1 = ''1''" and s2: "str_nat 2 = ''2''" by code_simp+
  have n0: "\<not> path_exists (projects_fs []) (path_join ?pd ''foo'')" by code_simp
  have e0: "path_exists (projects_fs [(''foo'', Dir []), (''foo-1'', Dir [])]) (path_join ?pd ''foo'')" by code_simp
  have e1: "path_exists (projects_fs [(''foo'', Dir []), (''foo-1'', Dir [])]) (path_join ?pd ''foo-1'')" by code_simp
  have n2: "\<not> path_exists (projects_fs [(''foo'', Dir []), (''foo-1'', Dir [])]) (path_join ?pd ''foo-2'')" by code_simp
  have all: "\<forall>j. 0 < j \<and> j < (2::nat) \<longrightarrow>
       path_exists (projects_fs [(''foo'', Dir []), (''foo-1'', Dir [])]) (path_join ?pd (''foo'' @ ''-'' @ str_nat j))"
  proof (intro allI impI)
    fix j :: nat
    assume "0 < j \<and> j < 2"
    then have "j = 1" by simp
    with e1 s1 show "path_exists (projects_fs [(''foo'', Dir []), (''foo-1'', Dir [])]) (path_join ?pd (''foo'' @ ''-'' @ str_nat j))" by simp
  qed
  from get_unique_project_dir_first_unused[of "projects_fs []" ?pd "''foo''" 1] n0
  have r1: "get_unique_project_dir (projects_fs []) ''foo'' ?pd = Some ''foo''" by blast
  from get_unique_project_dir_first_unused[of "projects_fs [(''foo'', Dir []), (''foo-1'', Dir [])]" ?pd "''foo''" 2] e0 n2 all s2
  have r2: "get_unique_project_dir (projects_fs [(''foo'', Dir []), (''foo-1'', Dir [])]) ''foo'' ?pd = Some ''foo-2''" by simp
  from n0 r1 e0 e1 n2 r2 show ?thesis by blast
qed

text \<open>
  The claim as stated fails when the name is taken by something that is not a
  directory: with a regular file \<^verbatim>\<open>foo\<close> under the projects root there is no directory
  of that name, and the answer is \<^verbatim>\<open>foo-1\<close>, not \<^verbatim>\<open>foo\<close>.
\<close>

theorem get_unique_project_dir_regular_file_counterexample:
  "\<not> is_dir (projects_fs [(''foo'', File 1)]) (path_join (Path Relative [''projects'']) ''foo'') \<and>
   get_unique_project_dir (projects_fs [(''foo'', File 1)]) ''foo'' (Path Relative [''projects''])
     = Some ''foo-1''"
proof -
  let ?fs = "projects_fs [(''foo'', File 1)]"
  let ?pd = "Path Relative [''projects'']"
  have s1: "str_nat 1 = ''1''" by code_simp
  have nd: "\<not> is_dir ?fs (path_join ?pd ''foo'')" by code_simp
  have e0: "path_exists ?fs (path_join ?pd ''foo'')" by code_simp
  have n1: "\<not> path_exists ?fs (path_join ?pd (''foo'' @ ''-'' @ str_nat 1))"
    unfolding s1 by code_simp
  have "probe ?fs ?pd ''foo'' 1 = Some (''foo'' @ ''-'' @ str_nat 1)"
    using n1 by (intro probe_least) auto
  with e0 nd s1 show ?thesis by (simp add: get_unique_project_dir_def)
qed

section \<open>Canonical paths\<close>




















section \<open>The backend turn\<close>

lemma consume_frame:
  "consume json_loads lines full w = (r, w') \<Longrightarrow>
   disk w' = disk w \<and> conversation_history w' = conversation_history w"
proof (induction lines arbitrary: full w)
  case Nil
  then show ?case by simp
next
  case (Cons line rest)
  show ?case
  proof (cases "line = []")
    case True
    with Cons show ?thesis by simp
  next
    case False
    show ?thesis
    proof (cases "json_loads line")
      case None
      with False Cons show ?thesis by simp
    next
      case (Some chunk)
      with False Cons.prems show ?thesis
        by (auto simp: say_def dest!: Cons.IH
                 split: sum.splits bool.splits json.splits if_splits)
    qed
  qed
qed

lemma grows_refl: "grows_by_system w w"
  by (simp add: grows_by_system_def)

lemma grows_trans: "grows_by_system w w1 \<Longrightarrow> grows_by_system w1 w2 \<Longrightarrow> grows_by_system w w2"
  by (auto simp: grows_by_system_def)

lemma grows_say: "grows_by_system w (say xs w)"
  by (simp add: grows_by_system_def say_def)

lemma grows_system: "grows_by_system w (append_message System c w)"
  by (simp add: grows_by_system_def append_message_def)

lemma ensure_file_in_context_grows:
  "ensure_file_in_context p w = (r, w') \<Longrightarrow> grows_by_system w w'"
  by (auto simp: ensure_file_in_context_def Let_def grows_refl grows_say grows_system
           split: sum.splits if_splits)

lemma validate_edits_grows:
  "validate_edits edits valid_files acc w = (r, w') \<Longrightarrow> grows_by_system w w'"
proof (induction edits arbitrary: acc w)
  case Nil
  then show ?case by (simp add: grows_refl)
next
  case (Cons edit rest)
  show ?case
  proof (cases "py_getitem edit ''path''")
    case (Inl e)
    with Cons.prems show ?thesis by (simp add: grows_refl)
  next
    case (Inr pv)
    show ?thesis
    proof (cases pv)
      case (JStr p)
      show ?thesis
      proof (cases "normalize_path (disk w) p")
        case (Inl e)
        with Inr JStr Cons.prems show ?thesis
          by (auto simp: grows_refl split: if_splits
                   intro: grows_trans[OF grows_say] dest!: Cons.IH)
      next
        case norm: (Inr abs)
        show ?thesis
        proof (cases "map_of valid_files abs \<noteq> None")
          case True
          with Inr JStr norm Cons.prems show ?thesis
            by (auto simp: grows_refl split: sum.splits dest!: Cons.IH)
        next
          case False
          obtain r1 w1 where e: "ensure_file_in_context abs w = (r1, w1)"
            by (cases "ensure_file_in_context abs w") auto
          from ensure_file_in_context_grows[OF e] have g: "grows_by_system w w1" .
          from Inr JStr norm False e Cons.prems show ?thesis
            by (auto simp: grows_refl g split: sum.splits bool.splits if_splits
                     intro: grows_trans[OF g] grows_trans[OF g grows_trans[OF grows_say]]
                     dest!: Cons.IH)
        qed
      qed
    qed (use Inr Cons.prems in \<open>auto simp: grows_refl\<close>)
  qed
qed

lemma parse_response_grows:
  "parse_response parsed valid_files w = (r, w') \<Longrightarrow> grows_by_system w w'"
  by (auto simp: parse_response_def Let_def grows_refl
           split: sum.splits bool.splits if_splits prod.splits
           dest: validate_edits_grows)

lemma respond_cases:
  assumes "consume json_loads lines [] (say [PrintInline (nl @ ''Assistant> '')] w) = (Inr full_content, w2)"
  shows "json_loads full_content = None \<Longrightarrow>
           respond json_loads (Streamed lines None) valid_files w =
             (\<lparr>assistant_reply = ''Failed to parse JSON response from assistant'',
               files_to_create = Some [], files_to_edit = None\<rparr>,
              say [Print [], Print (''[red]'' @ cross_mark @ ''[/red] ''
                     @ ''Failed to parse JSON response from assistant'')] w2)"
    and "json_loads full_content = Some parsed \<Longrightarrow>
         parse_response parsed valid_files (say [Print []] w2) = (Inl e, w3) \<Longrightarrow>
           respond json_loads (Streamed lines None) valid_files w = api_error e w3"
    and "json_loads full_content = Some parsed \<Longrightarrow>
         parse_response parsed valid_files (say [Print []] w2) = (Inr r, w3) \<Longrightarrow>
           respond json_loads (Streamed lines None) valid_files w =
             (r, append_message Assistant (assistant_reply r) w3)"
  using assms by (simp_all add: respond_def)

lemma api_error_frame:
  "api_error e w = (r, w') \<Longrightarrow>
   r = \<lparr>assistant_reply = ''Ollama API error: '' @ str_exn e,
         files_to_create = Some [], files_to_edit = None\<rparr> \<and>
   disk w' = disk w \<and> conversation_history w' = conversation_history w"
  by (auto simp: api_error_def say_def)

text \<open>
  Claim C5. Let the preload of the turn end normally and the stream deliver its lines.
  When the accumulated text is not JSON, or is JSON that the response cannot be built
  from (an exception on the way to the response object), \<open>stream_openai_response\<close>
  returns a response and raises nothing: its reply is not empty, its list of files to
  create is empty and it has no list of edits. For text that is not JSON the reply is
  the fixed parse-failure text.
\<close>

theorem undecodable_output_synthetic_response:
  assumes "guess_files_in_message (disk w) user_message = Inr potential_paths"
      and "preload potential_paths [] w = (Inr valid_files, w1)"
      and "consume json_loads lines []
             (say [PrintInline (nl @ ''Assistant> '')] (append_message User user_message w1))
           = (Inr full_content, w2)"
      and "json_loads full_content = None \<or>
           (\<exists>parsed e w3. json_loads full_content = Some parsed \<and>
              parse_response parsed valid_files (say [Print []] w2) = (Inl e, w3))"
  shows "\<exists>r w'. stream_openai_response json_loads (Streamed lines None) user_message w = (Inr r, w') \<and>
           assistant_reply r \<noteq> [] \<and> files_to_create r = Some [] \<and> files_to_edit r = None \<and>
           entries (files_to_create r) = [] \<and> entries (files_to_edit r) = [] \<and>
           (json_loads full_content = None \<longrightarrow>
              assistant_reply r = ''Failed to parse JSON response from assistant'')"
  using assms(4)
proof
  assume n: "json_loads full_content = None"
  from respond_cases(1)[OF assms(3) n, of valid_files] assms(1,2)
  show ?thesis by (simp add: stream_openai_response_def entries_def)
next
  assume "\<exists>parsed e w3. json_loads full_content = Some parsed \<and>
              parse_response parsed valid_files (say [Print []] w2) = (Inl e, w3)"
  then obtain parsed e w3 where s: "json_loads full_content = Some parsed"
    and p: "parse_response parsed valid_files (say [Print []] w2) = (Inl e, w3)" by blast
  from respond_cases(2)[OF assms(3) s p] assms(1,2) s
  show ?thesis by (simp add: stream_openai_response_def entries_def api_error_def)
qed

lemma demo_no_guess: "guess_files_in_message (disk demo_world) ''hello'' = Inr []"
  by code_simp

theorem undecodable_output_synthetic_response_witness:
  "guess_files_in_message (disk demo_world) ''hello'' = Inr [] \<and>
   preload [] [] demo_world = (Inr [], demo_world) \<and>
   demo_loads ''oops'' = None \<and>
   fst (stream_openai_response demo_loads (Streamed [''chunk: oops''] None) ''hello'' demo_world) =
     Inr \<lparr>assistant_reply = ''Failed to parse JSON response from assistant'',
          files_to_create = Some [], files_to_edit = None\<rparr> \<and>
   demo_loads ''[1]'' = Some (JArr [JNum 1]) \<and>
   fst (parse_response (JArr [JNum 1]) [] demo_world) = Inl TypeError \<and>
   (\<exists>r. fst (stream_openai_response demo_loads (Streamed [''chunk: [1]''] None) ''hello'' demo_world) = Inr r \<and>
        assistant_reply r \<noteq> [] \<and> files_to_create r = Some [] \<and> files_to_edit r = None)"
proof -
  let ?w0 = "say [PrintInline (nl @ ''Assistant> '')] (append_message User ''hello'' demo_world)"
  have pre: "preload [] [] demo_world = (Inr [], demo_world)"
    by simp
  have l1: "demo_loads ''oops'' = None" and l2: "demo_loads ''[1]'' = Some (JArr [JNum 1])"
    by (simp_all add: demo_loads_def)
  have c1: "consume demo_loads [''chunk: oops''] [] ?w0 = (Inr ''oops'', say [PrintInline ''oops''] ?w0)"
    by (simp add: demo_loads_def)
  have c2: "consume demo_loads [''chunk: [1]''] [] ?w0 = (Inr ''[1]'', say [PrintInline ''[1]''] ?w0)"
    by (simp add: demo_loads_def)
  have p2: "parse_response (JArr [JNum 1]) [] (say [Print []] (say [PrintInline ''[1]''] ?w0))
            = (Inl TypeError, say [Print []] (say [PrintInline ''[1]''] ?w0))"
    by (simp add: parse_response_def)
  have p2': "fst (parse_response (JArr [JNum 1]) [] demo_world) = Inl TypeError"
    by (simp add: parse_response_def)
  from undecodable_output_synthetic_response[OF demo_no_guess pre c1] l1
  obtain r1 w1' where a: "stream_openai_response demo_loads (Streamed [''chunk: oops''] None) ''hello'' demo_world = (Inr r1, w1')"
    and b: "files_to_create r1 = Some []" "files_to_edit r1 = None"
      "assistant_reply r1 = ''Failed to parse JSON response from assistant''"
    by blast
  have r1: "r1 = \<lparr>assistant_reply = ''Failed to parse JSON response from assistant'',
          files_to_create = Some [], files_to_edit = None\<rparr>"
    using b by (cases r1) simp
  have bad: "demo_loads ''[1]'' = None \<or>
           (\<exists>parsed e w3. demo_loads ''[1]'' = Some parsed \<and>
              parse_response parsed [] (say [Print []] (say [PrintInline ''[1]''] ?w0)) = (Inl e, w3))"
    using l2 p2 by blast
  from undecodable_output_synthetic_response[OF demo_no_guess pre c2 bad]
  obtain r2 w2' where c: "stream_openai_response demo_loads (Streamed [''chunk: [1]''] None) ''hello'' demo_world = (Inr r2, w2')"
    and d: "assistant_reply r2 \<noteq> []" "files_to_create r2 = Some []" "files_to_edit r2 = None"
    by blast
  show ?thesis
    using demo_no_guess pre l1 l2 p2' a r1 c d by simp
qed

text \<open>
  Claim C10. Let the preload of the turn end normally, with history \<open>h\<close>. When the
  request is refused, the stream breaks, a chunk cannot be used or the accumulated text
  is not JSON, the turn returns a reply and ends with history \<open>h\<close> followed by the user
  message and nothing else. When the text is JSON and building the response raises, the
  history is \<open>h\<close>, the user message and then only system messages (file contents loaded
  while the edits were checked). In no failed turn is an assistant message recorded;
  the path that returns the decoded response appends its reply as the assistant's
  message.
\<close>

theorem failed_turn_records_no_assistant_message:
  assumes "guess_files_in_message (disk w) user_message = Inr potential_paths"
      and "preload potential_paths [] w = (Inr valid_files, w1)"
      and "stream_openai_response json_loads backend user_message w = (res, w')"
      and "w0 = say [PrintInline (nl @ ''Assistant> '')] (append_message User user_message w1)"
  shows
    "(backend = Refused e \<or> backend = Streamed lines (Some e) \<or>
      backend = Streamed lines None \<and> fst (consume json_loads lines [] w0) = Inl e \<or>
      backend = Streamed lines None \<and> fst (consume json_loads lines [] w0) = Inr full_content \<and>
        json_loads full_content = None
      \<longrightarrow> (\<exists>r. res = Inr r) \<and>
          conversation_history w' =
            conversation_history w1 @ [\<lparr>role = User, content = user_message\<rparr>]) \<and>
     (backend = Streamed lines None \<and> fst (consume json_loads lines [] w0) = Inr full_content \<and>
        json_loads full_content = Some parsed \<and>
        fst (parse_response parsed valid_files (say [Print []] (snd (consume json_loads lines [] w0))))
          = Inl e
      \<longrightarrow> (\<exists>r ms. res = Inr r \<and>
            conversation_history w' =
              conversation_history w1 @ [\<lparr>role = User, content = user_message\<rparr>] @ ms \<and>
            list_all (\<lambda>m. role m = System) ms)) \<and>
     (backend = Streamed lines None \<and> fst (consume json_loads lines [] w0) = Inr full_content \<and>
        json_loads full_content = Some parsed \<and>
        fst (parse_response parsed valid_files (say [Print []] (snd (consume json_loads lines [] w0))))
          = Inr r
      \<longrightarrow> res = Inr r \<and>
          conversation_history w' =
            conversation_history
              (snd (parse_response parsed valid_files
                      (say [Print []] (snd (consume json_loads lines [] w0)))))
            @ [\<lparr>role = Assistant, content = assistant_reply r\<rparr>])"
proof -
  let ?u = "append_message User user_message w1"
  let ?h = "conversation_history w1 @ [\<lparr>role = User, content = user_message\<rparr>]"
  let ?c = "consume json_loads lines [] w0"
  let ?p = "parse_response parsed valid_files (say [Print []] (snd ?c))"
  have hu: "conversation_history ?u = ?h" by (simp add: append_message_def)
  have h0: "conversation_history w0 = ?h" by (simp add: assms(4) append_message_def say_def)
  have run: "(res, w') = (case respond json_loads backend valid_files ?u of
                            (response_obj, w2) \<Rightarrow> (Inr response_obj, w2))"
    using assms(1,2,3) by (simp add: stream_openai_response_def)
  have c: "consume json_loads lines [] w0 = (fst ?c, snd ?c)" by simp
  have hc: "conversation_history (snd ?c) = ?h"
    using consume_frame[OF c] h0 by simp
  have A: "(\<exists>r. res = Inr r) \<and> conversation_history w' = ?h" if "backend = Refused e"
    using run that hu by (auto simp: respond_def api_error_def say_def)
  have B: "(\<exists>r. res = Inr r) \<and> conversation_history w' = ?h"
    if "backend = Streamed lines (Some e)"
    using run that c hc assms(4)
    by (cases "fst ?c") (auto simp: respond_def api_error_def say_def split: prod.splits)
  have C: "(\<exists>r. res = Inr r) \<and> conversation_history w' = ?h"
    if "backend = Streamed lines None" "fst ?c = Inl e"
    using run that c hc assms(4)
    by (auto simp: respond_def api_error_def say_def split: prod.splits)
  have D: "(\<exists>r. res = Inr r) \<and> conversation_history w' = ?h"
    if "backend = Streamed lines None" "fst ?c = Inr full_content" "json_loads full_content = None"
  proof -
    have "consume json_loads lines [] (say [PrintInline (nl @ ''Assistant> '')] ?u)
          = (Inr full_content, snd ?c)"
      using that(2) assms(4) by (auto simp: prod_eq_iff)
    from respond_cases(1)[OF this that(3), of valid_files] run that(1) hc show ?thesis
      by (auto simp: say_def)
  qed
  have E: "\<exists>r ms. res = Inr r \<and> conversation_history w' = ?h @ ms \<and>
            list_all (\<lambda>m. role m = System) ms"
    if "backend = Streamed lines None" "fst ?c = Inr full_content"
       "json_loads full_content = Some parsed" "fst ?p = Inl e"
  proof -
    have ce: "consume json_loads lines [] (say [PrintInline (nl @ ''Assistant> '')] ?u)
          = (Inr full_content, snd ?c)"
      using that(2) assms(4) by (auto simp: prod_eq_iff)
    have pe: "?p = (Inl e, snd ?p)" using that(4) by (metis prod.collapse)
    have h2: "conversation_history (say [Print []] (snd ?c)) = ?h"
      using hc by (simp add: say_def)
    from parse_response_grows[OF pe] obtain ms
      where "conversation_history (snd ?p) = ?h @ ms" "list_all (\<lambda>m. role m = System) ms"
      using h2 by (auto simp: grows_by_system_def)
    with run that(1) respond_cases(2)[OF ce that(3) pe] show ?thesis
      by (auto simp: api_error_def say_def)
  qed
  have F: "res = Inr r \<and> conversation_history w' =
            conversation_history (snd ?p) @ [\<lparr>role = Assistant, content = assistant_reply r\<rparr>]"
    if "backend = Streamed lines None" "fst ?c = Inr full_content"
       "json_loads full_content = Some parsed" "fst ?p = Inr r"
  proof -
    have ce: "consume json_loads lines [] (say [PrintInline (nl @ ''Assistant> '')] ?u)
          = (Inr full_content, snd ?c)"
      using that(2) assms(4) by (auto simp: prod_eq_iff)
    have pe: "?p = (Inr r, snd ?p)" using that(4) by (metis prod.collapse)
    from run that(1) respond_cases(3)[OF ce that(3) pe] show ?thesis
      by (auto simp: append_message_def)
  qed
  show ?thesis
    apply (intro conjI impI)
    subgoal using A B C D by (elim disjE conjE) simp_all
    subgoal using A B C D by (elim disjE conjE) simp_all
    subgoal using E by (elim conjE) simp
    subgoal using F by (elim conjE) simp
    subgoal using F by (elim conjE) simp
    done
qed

lemma demo_failures:
  "fst (consume demo_loads [''chunk: 7''] [] demo_w0) = Inl TypeError"
  "fst (consume demo_loads [''chunk: oops''] [] demo_w0) = Inr ''oops''"
  "demo_loads ''oops'' = None"
  "fst (consume demo_loads [''chunk: broken''] [] demo_w0) = Inr ''broken''"
  "demo_loads ''broken'' \<noteq> None"
  "fst (demo_parsed ''chunk: broken'') = Inl KeyError"
  "conversation_history (snd (demo_turn (Streamed [''chunk: broken''] None))) =
     conversation_history demo_world @
       [\<lparr>role = User, content = ''hello''\<rparr>,
        frame ''/home/u/projects/demo/app.py'' ''x = 1; x = 1'']"
  "fst (consume demo_loads [''chunk: edits''] [] demo_w0) = Inr ''edits''"
  "demo_loads ''edits'' \<noteq> None"
  "fst (demo_parsed ''chunk: edits'') =
     Inr \<lparr>assistant_reply = ''done'', files_to_create = None,
          files_to_edit = Some [\<lparr>edit_path = ''/home/u/projects/demo/app.py'',
                                  edit_original_snippet = ''x'', edit_new_snippet = ''y''\<rparr>]\<rparr>"
  "conversation_history (snd (demo_parsed ''chunk: edits'')) =
     conversation_history demo_world @
       [\<lparr>role = User, content = ''hello''\<rparr>,
        frame ''/home/u/projects/demo/app.py'' ''x = 1; x = 1'']"
  by code_simp+

theorem failed_turn_records_no_assistant_message_witness:
  "guess_files_in_message (disk demo_world) ''hello'' = Inr [] \<and>
   preload [] [] demo_world = (Inr [], demo_world) \<and>
   conversation_history (snd (demo_turn (Refused (RequestException ''connection refused'')))) =
     conversation_history demo_world @ [\<lparr>role = User, content = ''hello''\<rparr>] \<and>
   conversation_history (snd (demo_turn (Streamed [''chunk: oops''] (Some (RequestException ''reset''))))) =
     conversation_history demo_world @ [\<lparr>role = User, content = ''hello''\<rparr>] \<and>
   fst (consume demo_loads [''chunk: 7''] [] demo_w0) = Inl TypeError \<and>
   conversation_history (snd (demo_turn (Streamed [''chunk: 7''] None))) =
     conversation_history demo_world @ [\<lparr>role = User, content = ''hello''\<rparr>] \<and>
   fst (consume demo_loads [''chunk: oops''] [] demo_w0) = Inr ''oops'' \<and>
   demo_loads ''oops'' = None \<and>
   conversation_history (snd (demo_turn (Streamed [''chunk: oops''] None))) =
     conversation_history demo_world @ [\<lparr>role = User, content = ''hello''\<rparr>] \<and>
   fst (demo_parsed ''chunk: broken'') = Inl KeyError \<and>
   (\<exists>ms. conversation_history (snd (demo_turn (Streamed [''chunk: broken''] None))) =
           conversation_history demo_world @ [\<lparr>role = User, content = ''hello''\<rparr>] @ ms \<and>
         list_all (\<lambda>m. role m = System) ms) \<and>
   conversation_history (snd (demo_turn (Streamed [''chunk: broken''] None))) =
     conversation_history demo_world @
       [\<lparr>role = User, content = ''hello''\<rparr>,
        frame ''/home/u/projects/demo/app.py'' ''x = 1; x = 1''] \<and>
   conversation_history (snd (demo_turn (Streamed [''chunk: edits''] None))) =
     conversation_history demo_world @
       [\<lparr>role = User, content = ''hello''\<rparr>,
        frame ''/home/u/projects/demo/app.py'' ''x = 1; x = 1'',
        \<lparr>role = Assistant, content = ''done''\<rparr>]"
proof -
  have pre: "preload [] [] demo_world = (Inr [], demo_world)"
    by simp
  have run: "stream_openai_response demo_loads backend ''hello'' demo_world =
             (fst (demo_turn backend), snd (demo_turn backend))" for backend
    by (simp add: demo_turn_def)
  note T = failed_turn_records_no_assistant_message[OF demo_no_guess pre run demo_w0_def]
  obtain pb where pb: "demo_loads ''broken'' = Some pb" using demo_failures(5) by blast
  obtain pe where pe: "demo_loads ''edits'' = Some pe" using demo_failures(9) by blast
  have a: "conversation_history (snd (demo_turn (Refused (RequestException ''connection refused'')))) =
     conversation_history demo_world @ [\<lparr>role = User, content = ''hello''\<rparr>]"
    using T[where backend = "Refused (RequestException ''connection refused'')"
              and e = "RequestException ''connection refused''"] by simp
  have b: "conversation_history (snd (demo_turn (Streamed [''chunk: oops''] (Some (RequestException ''reset''))))) =
     conversation_history demo_world @ [\<lparr>role = User, content = ''hello''\<rparr>]"
    using T[where backend = "Streamed [''chunk: oops''] (Some (RequestException ''reset''))"
              and e = "RequestException ''reset''" and lines = "[''chunk: oops'']"] by simp
  have c: "conversation_history (snd (demo_turn (Streamed [''chunk: 7''] None))) =
     conversation_history demo_world @ [\<lparr>role = User, content = ''hello''\<rparr>]"
    using T[where backend = "Streamed [''chunk: 7''] None" and e = TypeError
              and lines = "[''chunk: 7'']"] demo_failures(1) by simp
  have d: "conversation_history (snd (demo_turn (Streamed [''chunk: oops''] None))) =
     conversation_history demo_world @ [\<lparr>role = User, content = ''hello''\<rparr>]"
    using T[where backend = "Streamed [''chunk: oops''] None" and full_content = "''oops''"
              and lines = "[''chunk: oops'']"] demo_failures(2,3) by simp
  have pbroken: "fst (parse_response pb []
      (say [Print []] (snd (consume demo_loads [''chunk: broken''] [] demo_w0)))) = Inl KeyError"
    using demo_failures(4,6) pb by (simp add: demo_parsed_def)
  have e: "\<exists>ms. conversation_history (snd (demo_turn (Streamed [''chunk: broken''] None))) =
           conversation_history demo_world @ [\<lparr>role = User, content = ''hello''\<rparr>] @ ms \<and>
         list_all (\<lambda>m. role m = System) ms"
    using T[where backend = "Streamed [''chunk: broken''] None" and full_content = "''broken''"
              and lines = "[''chunk: broken'']" and parsed = pb and e = KeyError]
          demo_failures(4) pb pbroken by auto
  have pedits: "fst (parse_response pe []
      (say [Print []] (snd (consume demo_loads [''chunk: edits''] [] demo_w0)))) =
     Inr \<lparr>assistant_reply = ''done'', files_to_create = None,
          files_to_edit = Some [\<lparr>edit_path = ''/home/u/projects/demo/app.py'',
                                  edit_original_snippet = ''x'', edit_new_snippet = ''y''\<rparr>]\<rparr>"
    and hedits: "conversation_history (snd (parse_response pe []
      (say [Print []] (snd (consume demo_loads [''chunk: edits''] [] demo_w0))))) =
     conversation_history demo_world @
       [\<lparr>role = User, content = ''hello''\<rparr>,
        frame ''/home/u/projects/demo/app.py'' ''x = 1; x = 1'']"
    using demo_failures(8,10,11) pe by (simp_all add: demo_parsed_def)
  have f: "conversation_history (snd (demo_turn (Streamed [''chunk: edits''] None))) =
     conversation_history demo_world @
       [\<lparr>role = User, content = ''hello''\<rparr>,
        frame ''/home/u/projects/demo/app.py'' ''x = 1; x = 1'',
        \<lparr>role = Assistant, content = ''done''\<rparr>]"
    using T[where backend = "Streamed [''chunk: edits''] None" and full_content = "''edits''"
              and lines = "[''chunk: edits'']" and parsed = pe
              and r = "\<lparr>assistant_reply = ''done'', files_to_create = None,
          files_to_edit = Some [\<lparr>edit_path = ''/home/u/projects/demo/app.py'',
                                  edit_original_snippet = ''x'', edit_new_snippet = ''y''\<rparr>]\<rparr>"]
          demo_failures(8) pe pedits hedits by simp
  from demo_no_guess pre a b c d e f demo_failures(1,2,3,6,7) show ?thesis by blast
qed

section \<open>The edit filter\<close>

lemma says_more_refl: "says_more w w"
  by (simp add: says_more_def)

lemma says_more_trans: "says_more w w1 \<Longrightarrow> says_more w1 w2 \<Longrightarrow> says_more w w2"
  by (auto simp: says_more_def)

lemma says_more_say: "says_more w (say xs w)"
  by (simp add: says_more_def say_def)

lemma says_more_mono: "says_more w w' \<Longrightarrow> x \<in> set (console w) \<Longrightarrow> x \<in> set (console w')"
  by (auto simp: says_more_def)

lemma walk_error: "walk fs loc cs = Inl e \<Longrightarrow> is_OSError e"
proof (induction cs arbitrary: loc)
  case Nil
  then show ?case by simp
next
  case (Cons c cs)
  then show ?case
    by (cases "follow fs (loc @ [c])")
       (auto split: if_splits option.splits node.splits)
qed

lemma read_local_file_error:
  "read_local_file fs p = Inl e \<Longrightarrow> is_OSError e \<or> is_ValueError e"
  by (auto simp: read_local_file_def read_file_def namei_def
           split: sum.splits option.splits node.splits if_splits anchor.splits prod.splits
           dest: walk_error)

lemma normalize_path_error:
  "normalize_path fs p = Inl e \<Longrightarrow> e = ValueError \<or> e = RuntimeError"
  by (auto simp: normalize_path_def resolve_def
           split: if_splits sum.splits prod.splits bool.splits)

lemma ensure_file_in_context_result:
  assumes "ensure_file_in_context p w = (r, w')"
  shows "(r = Inr True \<longleftrightarrow> readable (disk w) p) \<and>
         (r = Inr True \<or> r = Inr False \<or> (\<exists>e. r = Inl e \<and> is_ValueError e) \<or>
          normalize_path (disk w) p = Inl RuntimeError) \<and>
         (normalize_path (disk w) p = Inl RuntimeError \<longrightarrow> r = Inl RuntimeError \<and> w' = w) \<and>
         says_more w w'"
proof (cases "normalize_path (disk w) p")
  case (Inl e)
  with assms normalize_path_error[OF Inl] show ?thesis
    by (auto simp: ensure_file_in_context_def readable_def says_more_refl)
next
  case (Inr n)
  show ?thesis
  proof (cases "read_local_file (disk w) (parse_path n)")
    case (Inl e)
    with Inr assms read_local_file_error[OF Inl] show ?thesis
      by (auto simp: ensure_file_in_context_def readable_def says_more_refl says_more_say
               split: if_splits)
  next
    case c: (Inr c)
    with Inr assms show ?thesis
      by (auto simp: ensure_file_in_context_def readable_def says_more_refl says_more_def
                     append_message_def
               split: if_splits)
  qed
qed

lemma field_str_path:
  "field_str edit ''path'' = Some p \<Longrightarrow>
   \<exists>kvs. edit = JObj kvs \<and> map_of kvs ''path'' = Some (JStr p)"
  by (cases edit) (auto split: option.splits json.splits)

text \<open>One round of the loop on a proposal that does not end it.\<close>

lemma validate_edits_step:
  assumes na: "\<not> aborts (disk w) valid_files edit"
  shows "\<exists>w1. disk w1 = disk w \<and> says_more w w1 \<and>
           (\<forall>rest acc. validate_edits (edit # rest) valid_files acc w =
              validate_edits rest valid_files
                (acc @ (case admit_edit (disk w) valid_files edit of None \<Rightarrow> [] | Some e' \<Rightarrow> [e'])) w1) \<and>
           (\<forall>p err. field_str edit ''path'' = Some p \<longrightarrow>
              normalize_path (disk w) p = Inl err \<longrightarrow> skip_warning p \<in> set (console w1))"
proof -
  from na obtain p where fp: "field_str edit ''path'' = Some p"
    by (auto simp: aborts_def split: option.splits)
  then obtain kvs where ed: "edit = JObj kvs" and mp: "map_of kvs ''path'' = Some (JStr p)"
    using field_str_path by blast
  have gi: "py_getitem edit ''path'' = Inr (JStr p)" using ed mp by simp
  show ?thesis
  proof (cases "normalize_path (disk w) p")
    case (Inl e)
    from na fp Inl have "e \<noteq> RuntimeError" by (simp add: aborts_def)
    with normalize_path_error[OF Inl] have ev: "e = ValueError" by blast
    let ?w1 = "say [skip_warning p] w"
    have step: "\<And>rest acc. validate_edits (edit # rest) valid_files acc w =
                validate_edits rest valid_files acc ?w1"
      using gi Inl ev by (simp add: skip_warning_def)
    have adm: "admit_edit (disk w) valid_files edit = None"
      using ed mp Inl by (simp add: admitted_def)
    have "skip_warning p \<in> set (console ?w1)" by (simp add: say_def)
    moreover have "disk ?w1 = disk w" by (simp add: say_def)
    ultimately show ?thesis using step adm fp says_more_say[of w "[skip_warning p]"]
      by (intro exI[of _ ?w1]) simp
  next
    case (Inr abs)
    let ?edit' = "JObj (AList.update ''path'' (JStr abs) kvs)"
    show ?thesis
    proof (cases "map_of valid_files abs \<noteq> None")
      case True
      have step: "\<And>rest acc. validate_edits (edit # rest) valid_files acc w =
                  validate_edits rest valid_files (acc @ [?edit']) w"
        using gi Inr True ed by simp
      have adm: "admit_edit (disk w) valid_files edit = Some ?edit'"
        using ed mp Inr True by (simp add: admitted_def)
      show ?thesis using step adm fp Inr says_more_refl[of w]
        by (intro exI[of _ w]) simp
    next
      case False
      from na fp Inr False have nr: "normalize_path (disk w) abs \<noteq> Inl RuntimeError"
        by (simp add: aborts_def)
      obtain r1 w1 where en: "ensure_file_in_context abs w = (r1, w1)"
        by (cases "ensure_file_in_context abs w") auto
      from ensure_file_in_context_result[OF en] nr
      have rd: "r1 = Inr True \<longleftrightarrow> readable (disk w) abs"
        and cs: "r1 = Inr True \<or> r1 = Inr False \<or> (\<exists>e. r1 = Inl e \<and> is_ValueError e)"
        and s1: "says_more w w1" by blast+
      from ensure_file_in_context_grows[OF en] have d1: "disk w1 = disk w"
        by (simp add: grows_by_system_def)
      show ?thesis
      proof (cases "r1 = Inr True")
        case True
        have step: "\<And>rest acc. validate_edits (edit # rest) valid_files acc w =
                    validate_edits rest valid_files (acc @ [?edit']) w1"
          using gi Inr False ed en True by simp
        have adm: "admit_edit (disk w) valid_files edit = Some ?edit'"
          using ed mp Inr True rd by (simp add: admitted_def)
        show ?thesis using step adm fp Inr d1 s1
          by (intro exI[of _ w1]) simp
      next
        case nt: False
        have adm: "admit_edit (disk w) valid_files edit = None"
          using ed mp Inr False nt rd by (simp add: admitted_def)
        show ?thesis
        proof (cases "r1 = Inr False")
          case True
          have "\<And>rest acc. validate_edits (edit # rest) valid_files acc w =
                validate_edits rest valid_files acc w1"
            using gi Inr False en True by simp
          then show ?thesis using adm fp Inr d1 s1
            by (intro exI[of _ w1]) simp
        next
          case nf: False
          with nt cs obtain e where e: "r1 = Inl e" "is_ValueError e" by blast
          let ?w2 = "say [skip_warning p] w1"
          have "\<And>rest acc. validate_edits (edit # rest) valid_files acc w =
                validate_edits rest valid_files acc ?w2"
            using gi Inr False en e by (simp add: skip_warning_def)
          moreover have "disk ?w2 = disk w" using d1 by (simp add: say_def)
          moreover have "says_more w ?w2"
            using says_more_trans[OF s1 says_more_say] .
          ultimately show ?thesis using adm fp Inr
            by (intro exI[of _ ?w2]) simp
        qed
      qed
    qed
  qed
qed

text \<open>One round of the loop on a proposal that ends it.\<close>

lemma validate_edits_abort_step:
  assumes ab: "aborts (disk w) valid_files edit"
  shows "\<exists>x. validate_edits (edit # rest) valid_files acc w = (Inl x, w) \<and>
           (x = KeyError \<or> x = TypeError \<or> x = RuntimeError)"
proof (cases "field_str edit ''path''")
  case None
  show ?thesis
  proof (cases edit)
    case (JObj kvs)
    with None show ?thesis
      by (cases "map_of kvs ''path''") (auto split: json.splits)
  qed simp_all
next
  case (Some p)
  then obtain kvs where ed: "edit = JObj kvs" and mp: "map_of kvs ''path'' = Some (JStr p)"
    using field_str_path by blast
  have gi: "py_getitem edit ''path'' = Inr (JStr p)" using ed mp by simp
  show ?thesis
  proof (cases "normalize_path (disk w) p")
    case (Inl e)
    with ab Some have "e = RuntimeError" by (simp add: aborts_def)
    with gi Inl show ?thesis by simp
  next
    case (Inr abs)
    with ab Some have nv: "map_of valid_files abs = None"
      and lp: "normalize_path (disk w) abs = Inl RuntimeError" by (simp_all add: aborts_def)
    obtain r1 w1 where en: "ensure_file_in_context abs w = (r1, w1)"
      by (cases "ensure_file_in_context abs w") auto
    from ensure_file_in_context_result[OF en] lp have "r1 = Inl RuntimeError" "w1 = w" by blast+
    with gi Inr nv en show ?thesis by simp
  qed
qed

lemma validate_edits_filter:
  assumes "\<forall>e \<in> set edits. \<not> aborts (disk w) valid_files e"
  shows "\<exists>w'. validate_edits edits valid_files acc w =
            (Inr (acc @ List.map_filter (admit_edit (disk w) valid_files) edits), w') \<and>
          disk w' = disk w \<and> says_more w w' \<and>
          (\<forall>e \<in> set edits. \<forall>p err. field_str e ''path'' = Some p \<longrightarrow>
             normalize_path (disk w) p = Inl err \<longrightarrow> skip_warning p \<in> set (console w'))"
  using assms
proof (induction edits arbitrary: acc w)
  case Nil
  then show ?case by (simp add: says_more_refl)
next
  case (Cons edit rest)
  from Cons.prems have na: "\<not> aborts (disk w) valid_files edit"
    and rest: "\<forall>e \<in> set rest. \<not> aborts (disk w) valid_files e" by simp_all
  let ?kept = "case admit_edit (disk w) valid_files edit of None \<Rightarrow> [] | Some e' \<Rightarrow> [e']"
  from validate_edits_step[OF na] obtain w1 where d1: "disk w1 = disk w" and s1: "says_more w w1"
    and step: "validate_edits (edit # rest) valid_files acc w =
                 validate_edits rest valid_files (acc @ ?kept) w1"
    and wn1: "\<forall>p err. field_str edit ''path'' = Some p \<longrightarrow>
              normalize_path (disk w) p = Inl err \<longrightarrow> skip_warning p \<in> set (console w1)"
    by blast
  from rest d1 have rest1: "\<forall>e \<in> set rest. \<not> aborts (disk w1) valid_files e" by simp
  from Cons.IH[OF rest1, of "acc @ ?kept"] obtain w'
    where r: "validate_edits rest valid_files (acc @ ?kept) w1 =
                (Inr ((acc @ ?kept) @ List.map_filter (admit_edit (disk w) valid_files) rest), w')"
      and d: "disk w' = disk w" and s: "says_more w1 w'"
      and wn: "\<forall>e \<in> set rest. \<forall>p err. field_str e ''path'' = Some p \<longrightarrow>
             normalize_path (disk w) p = Inl err \<longrightarrow> skip_warning p \<in> set (console w')"
    unfolding d1 by blast
  have k: "(acc @ ?kept) @ List.map_filter (admit_edit (disk w) valid_files) rest =
           acc @ List.map_filter (admit_edit (disk w) valid_files) (edit # rest)"
    by (cases "admit_edit (disk w) valid_files edit") (simp_all add: List.map_filter_simps)
  have here: "\<forall>p err. field_str edit ''path'' = Some p \<longrightarrow>
              normalize_path (disk w) p = Inl err \<longrightarrow> skip_warning p \<in> set (console w')"
    using wn1 says_more_mono[OF s] by blast
  have "says_more w w'" using says_more_trans[OF s1 s] .
  with step r k d wn here show ?case by auto
qed

lemma validate_edits_aborts:
  assumes "\<exists>e \<in> set edits. aborts (disk w) valid_files e"
  shows "\<exists>x w'. validate_edits edits valid_files acc w = (Inl x, w') \<and>
           (x = KeyError \<or> x = TypeError \<or> x = RuntimeError) \<and> disk w' = disk w"
  using assms
proof (induction edits arbitrary: acc w)
  case Nil
  then show ?case by simp
next
  case (Cons edit rest)
  show ?case
  proof (cases "aborts (disk w) valid_files edit")
    case True
    from validate_edits_abort_step[OF True, of rest acc] show ?thesis by blast
  next
    case False
    with Cons.prems have rest: "\<exists>e \<in> set rest. aborts (disk w) valid_files e" by simp
    let ?kept = "case admit_edit (disk w) valid_files edit of None \<Rightarrow> [] | Some e' \<Rightarrow> [e']"
    from validate_edits_step[OF False] obtain w1 where d1: "disk w1 = disk w"
      and step: "validate_edits (edit # rest) valid_files acc w =
                   validate_edits rest valid_files (acc @ ?kept) w1"
      by blast
    from rest d1 have "\<exists>e \<in> set rest. aborts (disk w1) valid_files e" by simp
    from Cons.IH[OF this, of "acc @ ?kept"] step d1 show ?thesis by auto
  qed
qed

lemma admit_edit_record:
  assumes "as_FileToEdit e = Some y"
  shows "admit_edit fs valid_files e = None \<Longrightarrow> admit_record fs valid_files y = None"
    and "admit_edit fs valid_files e = Some e' \<Longrightarrow>
         \<exists>y'. as_FileToEdit e' = Some y' \<and> admit_record fs valid_files y = Some y'"
proof -
  from assms obtain kvs where e: "e = JObj kvs"
    by (cases e) (auto simp: as_FileToEdit_def)
  from assms e obtain p a b where f: "map_of kvs ''path'' = Some (JStr p)"
    "map_of kvs ''original_snippet'' = Some (JStr a)" "map_of kvs ''new_snippet'' = Some (JStr b)"
    and y: "y = \<lparr>edit_path = p, edit_original_snippet = a, edit_new_snippet = b\<rparr>"
    by (auto simp: as_FileToEdit_def split: option.splits json.splits)
  show "admit_edit fs valid_files e = None \<Longrightarrow> admit_record fs valid_files y = None"
    using e f y
    by (cases "admitted fs valid_files p") (simp_all add: admit_record_def)
  show "admit_edit fs valid_files e = Some e' \<Longrightarrow>
         \<exists>y'. as_FileToEdit e' = Some y' \<and> admit_record fs valid_files y = Some y'"
    using e f y
    by (cases "admitted fs valid_files p")
       (auto simp: admit_record_def as_FileToEdit_def update_conv')
qed

lemma all_some_filter:
  "all_some (map as_FileToEdit edits) = Some ys \<Longrightarrow>
   all_some (map as_FileToEdit (List.map_filter (admit_edit fs valid_files) edits)) =
     Some (List.map_filter (admit_record fs valid_files) ys)"
proof (induction edits arbitrary: ys)
  case Nil
  then show ?case by (simp add: List.map_filter_simps)
next
  case (Cons e edits)
  from Cons.prems obtain y ys' where y: "as_FileToEdit e = Some y"
    and ys': "all_some (map as_FileToEdit edits) = Some ys'" and ys: "ys = y # ys'"
    by (cases "as_FileToEdit e") (auto split: option.splits)
  show ?case
  proof (cases "admit_edit fs valid_files e")
    case None
    from admit_edit_record(1)[OF y None] Cons.IH[OF ys'] None ys show ?thesis
      by (simp add: List.map_filter_simps)
  next
    case (Some e')
    from admit_edit_record(2)[OF y Some] obtain y' where "as_FileToEdit e' = Some y'"
      "admit_record fs valid_files y = Some y'" by blast
    with Cons.IH[OF ys'] Some ys show ?thesis
      by (simp add: List.map_filter_simps)
  qed
qed

lemma parse_response_edits:
  assumes mp: "map_of kvs ''files_to_edit'' = Some (JArr edits)"
      and ne: "edits \<noteq> []"
      and na: "\<forall>e \<in> set edits. \<not> aborts (disk w) valid_files e"
      and sch: "make_AssistantResponse (JObj (with_reply kvs)) = Inr r0"
  shows "\<exists>w'. parse_response (JObj kvs) valid_files w =
           (Inr (r0\<lparr>files_to_edit :=
                     Some (List.map_filter (admit_record (disk w) valid_files)
                             (entries (files_to_edit r0)))\<rparr>), w') \<and>
         disk w' = disk w"
proof -
  let ?kvs1 = "with_reply kvs"
  have m1: "map_of ?kvs1 ''files_to_edit'' = Some (JArr edits)"
    using mp by (simp add: with_reply_def update_conv')
  from validate_edits_filter[OF na, of "[]"] obtain w1
    where ve: "validate_edits edits valid_files [] w =
                 (Inr (List.map_filter (admit_edit (disk w) valid_files) edits), w1)"
      and d1: "disk w1 = disk w"
    by auto
  let ?kept = "List.map_filter (admit_edit (disk w) valid_files) edits"
  let ?kvs2 = "AList.update ''files_to_edit'' (JArr ?kept) ?kvs1"
  have pr: "parse_response (JObj kvs) valid_files w =
            (case make_AssistantResponse (JObj ?kvs2) of
               Inl e \<Rightarrow> (Inl e, w1) | Inr response_obj \<Rightarrow> (Inr response_obj, w1))"
  proof (cases "map_of kvs ''assistant_reply'' \<noteq> None")
    case True
    then have wr: "with_reply kvs = kvs" by (simp only: with_reply_def if_False)
    from True show ?thesis unfolding wr
      using ne ve mp by (simp add: parse_response_def Let_def)
  next
    case False
    then have wr: "with_reply kvs = AList.update ''assistant_reply'' (JStr []) kvs"
      by (simp only: with_reply_def not_not if_True simp_thms)
    from False show ?thesis unfolding wr
      using ne ve mp by (simp add: parse_response_def Let_def update_conv')
  qed
  from sch m1 obtain reply creates ys where rp: "map_of ?kvs1 ''assistant_reply'' = Some (JStr reply)"
    and cr: "optional_list as_FileToCreate (map_of ?kvs1 ''files_to_create'') = Inr creates"
    and al: "all_some (map as_FileToEdit edits) = Some ys"
    and r0: "r0 = \<lparr>assistant_reply = reply, files_to_create = creates, files_to_edit = Some ys\<rparr>"
    by (auto simp: make_AssistantResponse_def optional_list_def
             split: option.splits json.splits sum.splits)
  have m2: "map_of ?kvs2 ''assistant_reply'' = Some (JStr reply)"
    "map_of ?kvs2 ''files_to_create'' = map_of ?kvs1 ''files_to_create''"
    "map_of ?kvs2 ''files_to_edit'' = Some (JArr ?kept)"
    using rp by (simp_all add: update_conv')
  have mk: "make_AssistantResponse (JObj ?kvs2) =
            Inr \<lparr>assistant_reply = reply, files_to_create = creates,
                 files_to_edit = Some (List.map_filter (admit_record (disk w) valid_files) ys)\<rparr>"
    using m2 cr all_some_filter[OF al, of "disk w" valid_files]
    by (simp add: make_AssistantResponse_def optional_list_def)
  show ?thesis using pr mk r0 d1 by (simp add: entries_def)
qed

lemma parse_response_aborts:
  assumes mp: "map_of kvs ''files_to_edit'' = Some (JArr edits)"
      and ab: "\<exists>e \<in> set edits. aborts (disk w) valid_files e"
  shows "\<exists>x w'. parse_response (JObj kvs) valid_files w = (Inl x, w') \<and>
           (x = KeyError \<or> x = TypeError \<or> x = RuntimeError)"
proof -
  from ab have ne: "edits \<noteq> []" by auto
  from validate_edits_aborts[OF ab, of "[]"] obtain x w1
    where ve: "validate_edits edits valid_files [] w = (Inl x, w1)"
      and x: "x = KeyError \<or> x = TypeError \<or> x = RuntimeError" by blast
  have "parse_response (JObj kvs) valid_files w = (Inl x, w1)"
  proof (cases "map_of kvs ''assistant_reply'' \<noteq> None")
    case True
    then show ?thesis
      using ne ve mp by (simp add: parse_response_def Let_def)
  next
    case False
    then show ?thesis
      using ne ve mp by (simp add: parse_response_def Let_def update_conv')
  qed
  with x show ?thesis by blast
qed

text \<open>
  Claim C4, amended. Of the proposed edits, those that hold no string under \<^verbatim>\<open>path\<close>
  and those whose path leads into a loop of symbolic links end the loop. When no
  proposal is of that kind, the loop ends normally and keeps exactly the admissible
  edits, in order: an edit whose path does not canonicalize is left out and the console
  shows the warning for it, while the loop goes on; an edit whose path canonicalizes is
  kept precisely when the canonical path is among the files read this turn or can be
  read now, and the kept edit has the canonical path written into its \<^verbatim>\<open>path\<close> field.
  The response built from a reply that fits the schema is then that reply with its
  edits filtered so and nothing else changed, so no other edit is handed on to
  \<open>apply_diff_edit\<close>. When some proposal ends the loop, the loop raises KeyError,
  TypeError or RuntimeError and no response is built from the reply:
  \<open>stream_openai_response\<close> answers with its error response, without any edit.
\<close>

theorem edit_filter_admits_readable_canonical_paths:
  "((\<forall>e \<in> set edits. \<not> aborts (disk w) valid_files e) \<longrightarrow>
      (\<exists>w'. validate_edits edits valid_files [] w =
               (Inr (List.map_filter (admit_edit (disk w) valid_files) edits), w') \<and>
             disk w' = disk w \<and>
             (\<forall>e \<in> set edits. \<forall>p err. field_str e ''path'' = Some p \<longrightarrow>
                normalize_path (disk w) p = Inl err \<longrightarrow> skip_warning p \<in> set (console w'))) \<and>
      (map_of kvs ''files_to_edit'' = Some (JArr edits) \<and> edits \<noteq> [] \<and>
       make_AssistantResponse (JObj (with_reply kvs)) = Inr r0 \<longrightarrow>
         (\<exists>w'. parse_response (JObj kvs) valid_files w =
                  (Inr (r0\<lparr>files_to_edit :=
                            Some (List.map_filter (admit_record (disk w) valid_files)
                                    (entries (files_to_edit r0)))\<rparr>), w') \<and>
                disk w' = disk w))) \<and>
   ((\<exists>e \<in> set edits. aborts (disk w) valid_files e) \<longrightarrow>
      (\<exists>x w'. validate_edits edits valid_files [] w = (Inl x, w') \<and>
               (x = KeyError \<or> x = TypeError \<or> x = RuntimeError)) \<and>
      (map_of kvs ''files_to_edit'' = Some (JArr edits) \<longrightarrow>
         (\<exists>x w'. parse_response (JObj kvs) valid_files w = (Inl x, w') \<and>
                  (x = KeyError \<or> x = TypeError \<or> x = RuntimeError))))"
proof (intro conjI impI)
  assume na: "\<forall>e \<in> set edits. \<not> aborts (disk w) valid_files e"
  from validate_edits_filter[OF na, of "[]"]
  show "\<exists>w'. validate_edits edits valid_files [] w =
               (Inr (List.map_filter (admit_edit (disk w) valid_files) edits), w') \<and>
             disk w' = disk w \<and>
             (\<forall>e \<in> set edits. \<forall>p err. field_str e ''path'' = Some p \<longrightarrow>
                normalize_path (disk w) p = Inl err \<longrightarrow> skip_warning p \<in> set (console w'))"
    by auto
next
  assume na: "\<forall>e \<in> set edits. \<not> aborts (disk w) valid_files e"
    and "map_of kvs ''files_to_edit'' = Some (JArr edits) \<and> edits \<noteq> [] \<and>
       make_AssistantResponse (JObj (with_reply kvs)) = Inr r0"
  then show "\<exists>w'. parse_response (JObj kvs) valid_files w =
                  (Inr (r0\<lparr>files_to_edit :=
                            Some (List.map_filter (admit_record (disk w) valid_files)
                                    (entries (files_to_edit r0)))\<rparr>), w') \<and>
                disk w' = disk w"
    using parse_response_edits by blast
next
  assume ab: "\<exists>e \<in> set edits. aborts (disk w) valid_files e"
  from validate_edits_aborts[OF ab, of "[]"]
  show "\<exists>x w'. validate_edits edits valid_files [] w = (Inl x, w') \<and>
               (x = KeyError \<or> x = TypeError \<or> x = RuntimeError)"
    by blast
next
  assume ab: "\<exists>e \<in> set edits. aborts (disk w) valid_files e"
    and mp: "map_of kvs ''files_to_edit'' = Some (JArr edits)"
  from parse_response_aborts[OF mp ab]
  show "\<exists>x w'. parse_response (JObj kvs) valid_files w = (Inl x, w') \<and>
                  (x = KeyError \<or> x = TypeError \<or> x = RuntimeError)" .
qed

lemma demo_edits_checked:
  "map (aborts (disk demo_world) []) demo_edits = [False, False, False]"
  "make_AssistantResponse
     (JObj (with_reply [(''assistant_reply'', JStr ''done''), (''files_to_edit'', JArr demo_edits)])) =
     Inr \<lparr>assistant_reply = ''done'', files_to_create = None,
          files_to_edit = Some
            [\<lparr>edit_path = ''projects/demo/app.py'',
               edit_original_snippet = ''x'', edit_new_snippet = ''y''\<rparr>,
             \<lparr>edit_path = ''projects/demo/nope.py'',
               edit_original_snippet = ''x'', edit_new_snippet = ''y''\<rparr>,
             \<lparr>edit_path = [CHR ''a'', CHR 0x00],
               edit_original_snippet = ''x'', edit_new_snippet = ''y''\<rparr>]\<rparr>"
  "List.map_filter (admit_record (disk demo_world) [])
     [\<lparr>edit_path = ''projects/demo/app.py'',
        edit_original_snippet = ''x'', edit_new_snippet = ''y''\<rparr>,
      \<lparr>edit_path = ''projects/demo/nope.py'',
        edit_original_snippet = ''x'', edit_new_snippet = ''y''\<rparr>,
      \<lparr>edit_path = [CHR ''a'', CHR 0x00],
        edit_original_snippet = ''x'', edit_new_snippet = ''y''\<rparr>] =
     [\<lparr>edit_path = ''/home/u/projects/demo/app.py'',
        edit_original_snippet = ''x'', edit_new_snippet = ''y''\<rparr>]"
  "map (aborts (disk demo_world) []) demo_broken_edits = [False, True]"
  "fst (validate_edits demo_broken_edits [] [] demo_world) = Inl KeyError"
  "fst (parse_response (JObj [(''assistant_reply'', JStr ''fixing''),
                             (''files_to_edit'', JArr demo_broken_edits)]) [] demo_world) = Inl KeyError"
  by code_simp+

lemma demo_admit:
  "List.map_filter (admit_edit (disk demo_world) []) demo_edits =
     [JObj [(''path'', JStr ''/home/u/projects/demo/app.py''),
            (''original_snippet'', JStr ''x''), (''new_snippet'', JStr ''y'')]]"
  by code_simp

lemma demo_normalize:
  "normalize_path (disk demo_world) ''projects/demo/app.py'' = Inr ''/home/u/projects/demo/app.py''"
  "normalize_path (disk demo_world) ''projects/demo/nope.py'' = Inr ''/home/u/projects/demo/nope.py''"
  "normalize_path (disk demo_world) [CHR ''a'', CHR 0x00] = Inl ValueError"
  "readable (disk demo_world) ''/home/u/projects/demo/app.py''"
  "\<not> readable (disk demo_world) ''/home/u/projects/demo/nope.py''"
  by code_simp+

theorem edit_filter_admits_readable_canonical_paths_witness:
  "map (aborts (disk demo_world) []) demo_edits = [False, False, False] \<and>
   normalize_path (disk demo_world) ''projects/demo/app.py'' = Inr ''/home/u/projects/demo/app.py'' \<and>
   readable (disk demo_world) ''/home/u/projects/demo/app.py'' \<and>
   normalize_path (disk demo_world) ''projects/demo/nope.py'' = Inr ''/home/u/projects/demo/nope.py'' \<and>
   \<not> readable (disk demo_world) ''/home/u/projects/demo/nope.py'' \<and>
   normalize_path (disk demo_world) [CHR ''a'', CHR 0x00] = Inl ValueError \<and>
   fst (validate_edits demo_edits [] [] demo_world) =
     Inr [JObj [(''path'', JStr ''/home/u/projects/demo/app.py''),
                (''original_snippet'', JStr ''x''), (''new_snippet'', JStr ''y'')]] \<and>
   skip_warning [CHR ''a'', CHR 0x00] \<in> set (console (snd (validate_edits demo_edits [] [] demo_world))) \<and>
   fst (parse_response demo_response [] demo_world) =
     Inr \<lparr>assistant_reply = ''done'', files_to_create = None,
          files_to_edit = Some [\<lparr>edit_path = ''/home/u/projects/demo/app.py'',
                                  edit_original_snippet = ''x'', edit_new_snippet = ''y''\<rparr>]\<rparr> \<and>
   map (aborts (disk demo_world) []) demo_broken_edits = [False, True] \<and>
   (\<exists>x. fst (validate_edits demo_broken_edits [] [] demo_world) = Inl x \<and>
        (x = KeyError \<or> x = TypeError \<or> x = RuntimeError)) \<and>
   fst (validate_edits demo_broken_edits [] [] demo_world) = Inl KeyError \<and>
   (\<exists>x. fst (parse_response (JObj [(''assistant_reply'', JStr ''fixing''),
                                   (''files_to_edit'', JArr demo_broken_edits)]) [] demo_world) = Inl x \<and>
        (x = KeyError \<or> x = TypeError \<or> x = RuntimeError)) \<and>
   fst (parse_response (JObj [(''assistant_reply'', JStr ''fixing''),
                             (''files_to_edit'', JArr demo_broken_edits)]) [] demo_world) = Inl KeyError"
proof -
  let ?kvs = "[(''assistant_reply'', JStr ''done''), (''files_to_edit'', JArr demo_edits)]"
  let ?r0 = "\<lparr>assistant_reply = ''done'', files_to_create = None,
          files_to_edit = Some
            [\<lparr>edit_path = ''projects/demo/app.py'',
               edit_original_snippet = ''x'', edit_new_snippet = ''y''\<rparr>,
             \<lparr>edit_path = ''projects/demo/nope.py'',
               edit_original_snippet = ''x'', edit_new_snippet = ''y''\<rparr>,
             \<lparr>edit_path = [CHR ''a'', CHR 0x00],
               edit_original_snippet = ''x'', edit_new_snippet = ''y''\<rparr>]\<rparr>"
  let ?kvsb = "[(''assistant_reply'', JStr ''fixing''), (''files_to_edit'', JArr demo_broken_edits)]"
  have na: "\<forall>e \<in> set demo_edits. \<not> aborts (disk demo_world) [] e"
    using demo_edits_checked(1) by (simp add: demo_edits_def)
  have ab: "\<exists>e \<in> set demo_broken_edits. aborts (disk demo_world) [] e"
    using demo_edits_checked(4) by (simp add: demo_broken_edits_def)
  have f3: "field_str (JObj [(''path'', JStr [CHR ''a'', CHR 0x00]),
            (''original_snippet'', JStr ''x''), (''new_snippet'', JStr ''y'')]) ''path''
            = Some [CHR ''a'', CHR 0x00]" by simp
  have m3: "JObj [(''path'', JStr [CHR ''a'', CHR 0x00]),
            (''original_snippet'', JStr ''x''), (''new_snippet'', JStr ''y'')] \<in> set demo_edits"
    by (simp add: demo_edits_def)
  have ne: "demo_edits \<noteq> []" by (simp add: demo_edits_def)
  have mp: "map_of ?kvs ''files_to_edit'' = Some (JArr demo_edits)" by simp
  have mpb: "map_of ?kvsb ''files_to_edit'' = Some (JArr demo_broken_edits)" by simp
  note T = edit_filter_admits_readable_canonical_paths
             [where edits = demo_edits and w = demo_world and valid_files = "[]"
                and kvs = ?kvs and ?r0.0 = ?r0]
  note B = edit_filter_admits_readable_canonical_paths
             [where edits = demo_broken_edits and w = demo_world and valid_files = "[]"
                and kvs = ?kvsb]
  from T na obtain w' where r: "validate_edits demo_edits [] [] demo_world =
                 (Inr (List.map_filter (admit_edit (disk demo_world) []) demo_edits), w')"
    and wn: "\<forall>e \<in> set demo_edits. \<forall>p err. field_str e ''path'' = Some p \<longrightarrow>
                  normalize_path (disk demo_world) p = Inl err \<longrightarrow> skip_warning p \<in> set (console w')"
    by blast
  from wn m3 f3 demo_normalize(3) have sw: "skip_warning [CHR ''a'', CHR 0x00] \<in> set (console w')"
    by blast
  from T na mp ne demo_edits_checked(2) obtain w2 where
    "parse_response (JObj ?kvs) [] demo_world =
       (Inr (?r0\<lparr>files_to_edit :=
                 Some (List.map_filter (admit_record (disk demo_world) [])
                         (entries (files_to_edit ?r0)))\<rparr>), w2)"
    by blast
  then have pr: "fst (parse_response demo_response [] demo_world) =
     Inr \<lparr>assistant_reply = ''done'', files_to_create = None,
          files_to_edit = Some [\<lparr>edit_path = ''/home/u/projects/demo/app.py'',
                                  edit_original_snippet = ''x'', edit_new_snippet = ''y''\<rparr>]\<rparr>"
    using demo_edits_checked(3) by (simp add: demo_response_def entries_def)
  from B ab obtain x wx where "validate_edits demo_broken_edits [] [] demo_world = (Inl x, wx)"
    "x = KeyError \<or> x = TypeError \<or> x = RuntimeError" by blast
  then have b1: "\<exists>x. fst (validate_edits demo_broken_edits [] [] demo_world) = Inl x \<and>
        (x = KeyError \<or> x = TypeError \<or> x = RuntimeError)" by auto
  from B ab mpb obtain y wy where "parse_response (JObj ?kvsb) [] demo_world = (Inl y, wy)"
    "y = KeyError \<or> y = TypeError \<or> y = RuntimeError" by blast
  then have b2: "\<exists>x. fst (parse_response (JObj ?kvsb) [] demo_world) = Inl x \<and>
        (x = KeyError \<or> x = TypeError \<or> x = RuntimeError)" by auto
  from r sw pr b1 b2 demo_admit demo_normalize demo_edits_checked(1,4,5,6)
  show ?thesis by simp
qed

text \<open>
  The claim as stated fails on a path that cannot be canonicalized because it leads
  into a loop of symbolic links. \<^verbatim>\<open>/home/u/loop\<close> is a link to itself, and the reply
  proposes an edit of \<^verbatim>\<open>projects/demo/app.py\<close>, which can be read, and one of
  \<^verbatim>\<open>loop\<close>. Canonicalizing \<^verbatim>\<open>loop\<close> raises RuntimeError; the edit is not dropped with
  a warning, the rest of the response does not succeed, and the turn answers with the
  error response, in which the good edit is lost as well. A proposal without a path
  does the same with KeyError.
\<close>

theorem edit_filter_symlink_loop_counterexample:
  "normalize_path (disk loop_world) ''loop'' = Inl RuntimeError \<and>
   readable (disk loop_world) ''projects/demo/app.py'' \<and>
   fst (stream_openai_response demo_loads (Streamed [''chunk: loopy''] None) ''hello'' loop_world) =
     Inr \<lparr>assistant_reply = ''Ollama API error: RuntimeError'',
          files_to_create = Some [], files_to_edit = None\<rparr> \<and>
   skip_warning ''loop'' \<notin>
     set (console (snd (stream_openai_response demo_loads (Streamed [''chunk: loopy''] None)
                          ''hello'' loop_world))) \<and>
   fst (stream_openai_response demo_loads (Streamed [''chunk: broken''] None) ''hello'' demo_world) =
     Inr \<lparr>assistant_reply = ''Ollama API error: KeyError'',
          files_to_create = Some [], files_to_edit = None\<rparr>"
  by code_simp


section \<open>The history\<close>

lemma adds_fresh_iff:
  "adds_fresh w w' loaded \<longleftrightarrow>
     disk w' = disk w \<and>
     (\<exists>ms. conversation_history w' = conversation_history w @ ms \<and>
           fresh_frames (disk w) (conversation_history w) ms loaded)"
  by (auto simp: adds_fresh_def prefix_def)

lemma fresh_frames_append:
  "fresh_frames fs h ms1 l1 \<Longrightarrow> fresh_frames fs (h @ ms1) ms2 l2 \<Longrightarrow>
   fresh_frames fs h (ms1 @ ms2) (l1 @ l2)"
proof (induction ms1 arbitrary: h l1)
  case Nil
  then show ?case by simp
next
  case (Cons m ms1)
  show ?case
  proof (cases "role m = System")
    case True
    with Cons.prems(1) obtain q c rest where l1: "l1 = (q, c) # rest"
      and here: "m = frame q c" "read_local_file fs (parse_path q) = Inr c"
        "\<not> list_ex (carries_marker q) h"
      and r: "fresh_frames fs (h @ [m]) ms1 rest"
      by (auto split: list.splits)
    from Cons.prems(2) have "fresh_frames fs ((h @ [m]) @ ms1) ms2 l2" by simp
    from Cons.IH[OF r this] True l1 here show ?thesis by simp
  next
    case False
    with Cons.prems(1) have r: "fresh_frames fs (h @ [m]) ms1 l1" by simp
    from Cons.prems(2) have "fresh_frames fs ((h @ [m]) @ ms1) ms2 l2" by simp
    from Cons.IH[OF r this] False show ?thesis by simp
  qed
qed

lemma carries_own: "carries_marker q (frame q c)"
proof -
  have "file_marker q @ '':'' @ nl @ nl @ c = [] @ file_marker q @ ('':'' @ nl @ nl @ c)" by simp
  then have "\<exists>pre post. file_marker q @ '':'' @ nl @ nl @ c = pre @ file_marker q @ post" by blast
  then show ?thesis by (simp only: carries_marker_def frame_def str_contains_iff message.simps)
qed

text \<open>
  Fresh frames are frames of different paths, none of which the history had the
  marker of.
\<close>

lemma fresh_frames_distinct:
  "fresh_frames fs h ms loaded \<Longrightarrow>
   distinct (map fst loaded) \<and> (\<forall>q \<in> set (map fst loaded). \<not> list_ex (carries_marker q) h)"
proof (induction ms arbitrary: h loaded)
  case Nil
  then show ?case by simp
next
  case (Cons m ms)
  show ?case
  proof (cases "role m = System")
    case True
    with Cons.prems obtain q c rest where l: "loaded = (q, c) # rest"
      and here: "m = frame q c" "\<not> list_ex (carries_marker q) h"
      and r: "fresh_frames fs (h @ [m]) ms rest"
      by (auto split: list.splits)
    from Cons.IH[OF r] have d: "distinct (map fst rest)"
      and n: "\<forall>q' \<in> set (map fst rest). \<not> list_ex (carries_marker q') (h @ [m])" by blast+
    have "q \<notin> set (map fst rest)"
    proof
      assume "q \<in> set (map fst rest)"
      with n have "\<not> carries_marker q m" by (auto simp: list_ex_iff)
      with here(1) carries_own show False by simp
    qed
    with d n here(2) l show ?thesis by (auto simp: list_ex_iff)
  next
    case False
    with Cons.prems have "fresh_frames fs (h @ [m]) ms loaded" by simp
    from Cons.IH[OF this] show ?thesis by (auto simp: list_ex_iff)
  qed
qed

lemma adds_fresh_distinct: "adds_fresh w w' loaded \<Longrightarrow> distinct (map fst loaded)"
  using fresh_frames_distinct by (auto simp: adds_fresh_def)

lemma adds_fresh_refl: "adds_fresh w w []"
  by (simp add: adds_fresh_def)

lemma adds_fresh_trans:
  "adds_fresh w w1 l1 \<Longrightarrow> adds_fresh w1 w2 l2 \<Longrightarrow> adds_fresh w w2 (l1 @ l2)"
  by (auto simp: adds_fresh_iff intro: fresh_frames_append)

lemma adds_fresh_say: "adds_fresh w (say xs w) []"
  by (simp add: adds_fresh_def say_def)

lemma adds_fresh_other: "r \<noteq> System \<Longrightarrow> adds_fresh w (append_message r c w) []"
  by (simp add: adds_fresh_iff append_message_def)

lemma adds_fresh_frame:
  assumes "read_local_file (disk w) (parse_path q) = Inr c"
      and "\<not> list_ex (\<lambda>msg. str_contains (file_marker q) (content msg)) (conversation_history w)"
  shows "adds_fresh w (append_message System (file_marker q @ '':'' @ nl @ nl @ c) w) [(q, c)]"
proof -
  have "\<not> list_ex (carries_marker q) (conversation_history w)"
    using assms(2) by (simp add: carries_marker_def list_ex_iff)
  then have "fresh_frames (disk w) (conversation_history w) [frame q c] [(q, c)]"
    using assms(1) by (simp add: frame_def)
  then show ?thesis by (simp add: adds_fresh_iff append_message_def frame_def)
qed

lemma loads_refl: "loads_canonical w w"
  using adds_fresh_refl[of w] by (auto simp: loads_canonical_def)

lemma loads_trans: "loads_canonical w w1 \<Longrightarrow> loads_canonical w1 w2 \<Longrightarrow> loads_canonical w w2"
proof -
  assume "loads_canonical w w1" "loads_canonical w1 w2"
  then obtain l1 l2 where a1: "adds_fresh w w1 l1" and a2: "adds_fresh w1 w2 l2"
    and n1: "\<forall>q \<in> set (map fst l1). \<exists>raw. normalize_path (disk w) raw = Inr q"
    and n2: "\<forall>q \<in> set (map fst l2). \<exists>raw. normalize_path (disk w1) raw = Inr q"
    by (auto simp: loads_canonical_def)
  from a1 have "disk w1 = disk w" by (simp add: adds_fresh_def)
  with n1 n2 have "\<forall>q \<in> set (map fst (l1 @ l2)). \<exists>raw. normalize_path (disk w) raw = Inr q"
    by auto
  with adds_fresh_trans[OF a1 a2] show ?thesis unfolding loads_canonical_def by blast
qed

lemma loads_say: "loads_canonical w (say xs w)"
  using adds_fresh_say[of w xs] by (auto simp: loads_canonical_def)

lemma loads_other: "r \<noteq> System \<Longrightarrow> loads_canonical w (append_message r c w)"
  using adds_fresh_other[of r w c] by (auto simp: loads_canonical_def)

lemma ensure_file_in_context_fresh:
  assumes "ensure_file_in_context p w = (r, w')"
  shows "\<exists>loaded. adds_fresh w w' loaded \<and>
           (\<forall>q \<in> set (map fst loaded). normalize_path (disk w) p = Inr q)"
proof (cases "normalize_path (disk w) p")
  case (Inl e)
  with assms have "adds_fresh w w' []"
    by (auto simp: ensure_file_in_context_def adds_fresh_refl adds_fresh_say split: if_splits)
  then show ?thesis by (intro exI[of _ "[]"]) simp
next
  case (Inr n)
  show ?thesis
  proof (cases "read_local_file (disk w) (parse_path n)")
    case (Inl e)
    with Inr assms have "adds_fresh w w' []"
      by (auto simp: ensure_file_in_context_def adds_fresh_refl adds_fresh_say split: if_splits)
    then show ?thesis by (intro exI[of _ "[]"]) simp
  next
    case c: (Inr c)
    show ?thesis
    proof (cases "list_ex (\<lambda>msg. str_contains (file_marker n) (content msg)) (conversation_history w)")
      case True
      with Inr c assms have "w' = w" by (simp add: ensure_file_in_context_def)
      then show ?thesis using adds_fresh_refl by (intro exI[of _ "[]"]) simp
    next
      case False
      with Inr c assms
      have "w' = append_message System (file_marker n @ '':'' @ nl @ nl @ c) w"
        by (simp add: ensure_file_in_context_def)
      with adds_fresh_frame[OF c False] Inr show ?thesis
        by (intro exI[of _ "[(n, c)]"]) simp
    qed
  qed
qed

lemma ensure_file_in_context_loads:
  "ensure_file_in_context p w = (r, w') \<Longrightarrow> loads_canonical w w'"
  using ensure_file_in_context_fresh[of p w r w'] unfolding loads_canonical_def by blast

lemma preload_fresh:
  "preload ps valid_files w = (r, w') \<Longrightarrow>
   \<exists>loaded. adds_fresh w w' loaded \<and> set (map fst loaded) \<subseteq> set ps"
proof (induction ps arbitrary: valid_files w)
  case Nil
  then show ?case using adds_fresh_refl by (intro exI[of _ "[]"]) simp
next
  case (Cons p ps)
  show ?case
  proof (cases "read_local_file (disk w) (parse_path p)")
    case (Inl e)
    show ?thesis
    proof (cases "is_OSError e")
      case True
      let ?w1 = "say [Print (''[red]'' @ cross_mark @ ''[/red] '' @ ''Cannot proceed: File ''
                               @ sq @ p @ sq @ '' does not exist or is not accessible'')] w"
      from Inl True Cons.prems have "preload ps valid_files ?w1 = (r, w')" by simp
      from Cons.IH[OF this] obtain l where "adds_fresh ?w1 w' l" "set (map fst l) \<subseteq> set ps"
        by blast
      with adds_fresh_trans[OF adds_fresh_say] show ?thesis
        by (intro exI[of _ l]) auto
    next
      case False
      with Inl Cons.prems have "w' = w" by simp
      then show ?thesis using adds_fresh_refl by (intro exI[of _ "[]"]) simp
    qed
  next
    case (Inr c)
    show ?thesis
    proof (cases "list_ex (\<lambda>msg. str_contains (file_marker p) (content msg)) (conversation_history w)")
      case True
      with Inr Cons.prems have "preload ps (AList.update p c valid_files) w = (r, w')" by simp
      from Cons.IH[OF this] show ?thesis by auto
    next
      case False
      let ?w1 = "append_message System (file_marker p @ '':'' @ nl @ nl @ c) w"
      from adds_fresh_frame[OF Inr False] have a: "adds_fresh w ?w1 [(p, c)]" .
      from Inr False Cons.prems
      have "preload ps (AList.update p c valid_files) ?w1 = (r, w')" by simp
      from Cons.IH[OF this] obtain l where "adds_fresh ?w1 w' l" "set (map fst l) \<subseteq> set ps"
        by blast
      with adds_fresh_trans[OF a] show ?thesis
        by (intro exI[of _ "(p, c) # l"]) auto
    qed
  qed
qed

lemma consume_loads:
  "consume json_loads lines full w = (r, w') \<Longrightarrow> loads_canonical w w'"
  using consume_frame[of json_loads lines full w r w']
  by (auto simp: loads_canonical_def adds_fresh_def intro!: exI[of _ "[]"])

lemma validate_edits_loads:
  "validate_edits edits valid_files acc w = (r, w') \<Longrightarrow> loads_canonical w w'"
proof (induction edits arbitrary: acc w)
  case Nil
  then show ?case by (simp add: loads_refl)
next
  case (Cons edit rest)
  show ?case
  proof (cases "py_getitem edit ''path''")
    case (Inl e)
    with Cons.prems show ?thesis by (simp add: loads_refl)
  next
    case (Inr pv)
    show ?thesis
    proof (cases pv)
      case (JStr p)
      show ?thesis
      proof (cases "normalize_path (disk w) p")
        case (Inl e)
        with Inr JStr Cons.prems show ?thesis
          by (auto simp: loads_refl split: if_splits
                   intro: loads_trans[OF loads_say] dest!: Cons.IH)
      next
        case norm: (Inr abs)
        show ?thesis
        proof (cases "map_of valid_files abs \<noteq> None")
          case True
          with Inr JStr norm Cons.prems show ?thesis
            by (auto simp: loads_refl split: sum.splits dest!: Cons.IH)
        next
          case False
          obtain r1 w1 where e: "ensure_file_in_context abs w = (r1, w1)"
            by (cases "ensure_file_in_context abs w") auto
          from ensure_file_in_context_loads[OF e] have g: "loads_canonical w w1" .
          from Inr JStr norm False e Cons.prems show ?thesis
            by (auto simp: loads_refl g split: sum.splits bool.splits if_splits
                     intro: loads_trans[OF g] loads_trans[OF g loads_trans[OF loads_say]]
                     dest!: Cons.IH)
        qed
      qed
    qed (use Inr Cons.prems in \<open>auto simp: loads_refl\<close>)
  qed
qed

lemma parse_response_loads:
  "parse_response parsed valid_files w = (r, w') \<Longrightarrow> loads_canonical w w'"
  by (auto simp: parse_response_def Let_def loads_refl
           split: sum.splits bool.splits if_splits prod.splits
           dest: validate_edits_loads)

lemma api_error_loads: "api_error e w = (r, w') \<Longrightarrow> loads_canonical w w'"
  by (auto simp: api_error_def loads_say)

lemma respond_loads:
  assumes "respond json_loads backend valid_files w = (r, w')"
  shows "loads_canonical w w'"
proof (cases backend)
  case (Refused e)
  with assms show ?thesis by (auto simp: respond_def dest: api_error_loads)
next
  case (Streamed lines broken)
  let ?w0 = "say [PrintInline (nl @ ''Assistant> '')] w"
  obtain c w1 where c: "consume json_loads lines [] ?w0 = (c, w1)"
    by (cases "consume json_loads lines [] ?w0") auto
  have a1: "loads_canonical w w1" using loads_trans[OF loads_say consume_loads[OF c]] .
  show ?thesis
  proof (cases c)
    case (Inl e)
    with assms Streamed c show ?thesis
      by (auto simp: respond_def dest!: api_error_loads intro: loads_trans[OF a1])
  next
    case (Inr full)
    show ?thesis
    proof (cases broken)
      case (Some e)
      with assms Streamed c Inr show ?thesis
        by (auto simp: respond_def dest!: api_error_loads intro: loads_trans[OF a1])
    next
      case None
      show ?thesis
      proof (cases "json_loads full")
        case n: None
        with assms Streamed c Inr None show ?thesis
          by (auto simp: respond_def intro: loads_trans[OF a1 loads_say])
      next
        case (Some parsed)
        obtain r2 w2 where p: "parse_response parsed valid_files (say [Print []] w1) = (r2, w2)"
          by (cases "parse_response parsed valid_files (say [Print []] w1)") auto
        have a2: "loads_canonical w w2"
          using loads_trans[OF a1 loads_trans[OF loads_say parse_response_loads[OF p]]] .
        from assms Streamed c Inr None Some p show ?thesis
          by (cases r2)
             (auto simp: respond_def dest!: api_error_loads
                   intro: loads_trans[OF a2] loads_trans[OF a2 loads_other])
      qed
    qed
  qed
qed

lemma guess_files_normalized:
  "guess_files fs ws = Inr ps \<Longrightarrow> \<forall>q \<in> set ps. \<exists>raw. normalize_path fs raw = Inr q"
proof (induction ws arbitrary: ps)
  case Nil
  then show ?case by simp
next
  case (Cons word ws)
  then show ?case
    by (auto split: if_splits sum.splits)
qed

lemma stream_openai_response_loads:
  assumes "stream_openai_response json_loads backend user_message w = (res, w')"
  shows "loads_canonical w w'"
proof (cases "guess_files_in_message (disk w) user_message")
  case (Inl e)
  with assms show ?thesis by (simp add: stream_openai_response_def loads_refl)
next
  case (Inr ps)
  then have nps: "\<forall>q \<in> set ps. \<exists>raw. normalize_path (disk w) raw = Inr q"
    using guess_files_normalized by (simp add: guess_files_in_message_def)
  obtain r1 w1 where p: "preload ps [] w = (r1, w1)"
    by (cases "preload ps [] w") auto
  from preload_fresh[OF p] nps have a1: "loads_canonical w w1"
    unfolding loads_canonical_def by blast
  show ?thesis
  proof (cases r1)
    case e: (Inl e)
    with assms Inr p a1 show ?thesis by (simp add: stream_openai_response_def)
  next
    case vf: (Inr vf)
    obtain r2 w2 where r: "respond json_loads backend vf (append_message User user_message w1) = (r2, w2)"
      by (cases "respond json_loads backend vf (append_message User user_message w1)") auto
    have "loads_canonical w1 w2"
      using loads_trans[OF loads_other respond_loads[OF r]] by simp
    with assms Inr p vf r a1 show ?thesis
      by (auto simp: stream_openai_response_def intro: loads_trans)
  qed
qed

text \<open>
  Claim C3, amended. The steps that load a file into the history leave the disk as it
  is and append fresh frames only. \<open>ensure_file_in_context\<close> appends nothing or the one
  frame of the canonical path of its argument; the preload of a turn appends frames of
  paths it was given; and whatever a whole backend turn appends
  (\<open>stream_openai_response\<close> with its preload and, for the proposed edits,
  \<open>ensure_file_in_context\<close>), its system messages are frames of canonical paths. In each
  case the frames are of different paths, each holds what its file reads as, and the
  marker of its path is in no earlier message of the history: loading never frames a
  path that is framed already.
\<close>

theorem loading_appends_only_fresh_frames:
  "(ensure_file_in_context p w = (r, w') \<longrightarrow>
      (\<exists>loaded. adds_fresh w w' loaded \<and> distinct (map fst loaded) \<and>
         (\<forall>q \<in> set (map fst loaded). normalize_path (disk w) p = Inr q))) \<and>
   (preload ps valid_files w = (r1, w1) \<longrightarrow>
      (\<exists>loaded. adds_fresh w w1 loaded \<and> distinct (map fst loaded) \<and>
         set (map fst loaded) \<subseteq> set ps)) \<and>
   (stream_openai_response json_loads backend user_message w = (res, w2) \<longrightarrow>
      (\<exists>loaded. adds_fresh w w2 loaded \<and> distinct (map fst loaded) \<and>
         (\<forall>q \<in> set (map fst loaded). \<exists>raw. normalize_path (disk w) raw = Inr q)))"
proof (intro conjI impI)
  assume "ensure_file_in_context p w = (r, w')"
  from ensure_file_in_context_fresh[OF this] adds_fresh_distinct
  show "\<exists>loaded. adds_fresh w w' loaded \<and> distinct (map fst loaded) \<and>
         (\<forall>q \<in> set (map fst loaded). normalize_path (disk w) p = Inr q)" by blast
next
  assume "preload ps valid_files w = (r1, w1)"
  from preload_fresh[OF this] adds_fresh_distinct
  show "\<exists>loaded. adds_fresh w w1 loaded \<and> distinct (map fst loaded) \<and>
         set (map fst loaded) \<subseteq> set ps" by blast
next
  assume "stream_openai_response json_loads backend user_message w = (res, w2)"
  from stream_openai_response_loads[OF this] adds_fresh_distinct
  show "\<exists>loaded. adds_fresh w w2 loaded \<and> distinct (map fst loaded) \<and>
         (\<forall>q \<in> set (map fst loaded). \<exists>raw. normalize_path (disk w) raw = Inr q)"
    unfolding loads_canonical_def by blast
qed

lemma demo_preload_twice:
  "fst (preload [''/home/u/projects/demo/app.py'', ''/home/u/projects/demo/app.py''] [] demo_world) =
     Inr [(''/home/u/projects/demo/app.py'', ''x = 1; x = 1'')]"
  "conversation_history
     (snd (preload [''/home/u/projects/demo/app.py'', ''/home/u/projects/demo/app.py''] [] demo_world)) =
     conversation_history demo_world @ [frame ''/home/u/projects/demo/app.py'' ''x = 1; x = 1'']"
  by code_simp+

lemma demo_ensure_twice:
  "conversation_history (snd (ensure_file_in_context ''projects/demo/app.py'' demo_world)) =
     conversation_history demo_world @ [frame ''/home/u/projects/demo/app.py'' ''x = 1; x = 1''] \<and>
   conversation_history (snd (ensure_file_in_context ''projects/demo/app.py''
       (snd (ensure_file_in_context ''projects/demo/app.py'' demo_world)))) =
     conversation_history demo_world @ [frame ''/home/u/projects/demo/app.py'' ''x = 1; x = 1'']"
  by code_simp

lemma demo_turn_history:
  "conversation_history (snd (stream_openai_response demo_loads (Streamed [''chunk: edits''] None)
       ''fix projects/demo/app.py please'' demo_world)) =
     conversation_history demo_world @
       [frame ''/home/u/projects/demo/app.py'' ''x = 1; x = 1'',
        \<lparr>role = User, content = ''fix projects/demo/app.py please''\<rparr>,
        \<lparr>role = Assistant, content = ''done''\<rparr>]"
  by code_simp

theorem loading_appends_only_fresh_frames_witness:
  "(\<exists>loaded. adds_fresh demo_world (snd (ensure_file_in_context ''projects/demo/app.py'' demo_world)) loaded \<and>
      distinct (map fst loaded)) \<and>
   conversation_history (snd (ensure_file_in_context ''projects/demo/app.py'' demo_world)) =
     conversation_history demo_world @ [frame ''/home/u/projects/demo/app.py'' ''x = 1; x = 1''] \<and>
   conversation_history (snd (ensure_file_in_context ''projects/demo/app.py''
       (snd (ensure_file_in_context ''projects/demo/app.py'' demo_world)))) =
     conversation_history demo_world @ [frame ''/home/u/projects/demo/app.py'' ''x = 1; x = 1''] \<and>
   (\<exists>loaded. adds_fresh demo_world
      (snd (preload [''/home/u/projects/demo/app.py'', ''/home/u/projects/demo/app.py''] [] demo_world))
      loaded \<and> distinct (map fst loaded)) \<and>
   conversation_history
     (snd (preload [''/home/u/projects/demo/app.py'', ''/home/u/projects/demo/app.py''] [] demo_world)) =
     conversation_history demo_world @ [frame ''/home/u/projects/demo/app.py'' ''x = 1; x = 1''] \<and>
   (\<exists>loaded. adds_fresh demo_world
      (snd (stream_openai_response demo_loads (Streamed [''chunk: edits''] None)
             ''fix projects/demo/app.py please'' demo_world)) loaded \<and> distinct (map fst loaded)) \<and>
   conversation_history (snd (stream_openai_response demo_loads (Streamed [''chunk: edits''] None)
       ''fix projects/demo/app.py please'' demo_world)) =
     conversation_history demo_world @
       [frame ''/home/u/projects/demo/app.py'' ''x = 1; x = 1'',
        \<lparr>role = User, content = ''fix projects/demo/app.py please''\<rparr>,
        \<lparr>role = Assistant, content = ''done''\<rparr>]"
proof -
  let ?e = "ensure_file_in_context ''projects/demo/app.py'' demo_world"
  let ?p = "preload [''/home/u/projects/demo/app.py'', ''/home/u/projects/demo/app.py''] [] demo_world"
  let ?s = "stream_openai_response demo_loads (Streamed [''chunk: edits''] None)
             ''fix projects/demo/app.py please'' demo_world"
  have e: "?e = (fst ?e, snd ?e)" and p: "?p = (fst ?p, snd ?p)" and s: "?s = (fst ?s, snd ?s)"
    by simp_all
  from loading_appends_only_fresh_frames
         [where p = "''projects/demo/app.py''" and w = demo_world
            and w' = "snd ?e" and r = "fst ?e"
            and ps = "[''/home/u/projects/demo/app.py'', ''/home/u/projects/demo/app.py'']"
            and valid_files = "[]" and ?r1.0 = "fst ?p" and ?w1.0 = "snd ?p"
            and json_loads = demo_loads and backend = "Streamed [''chunk: edits''] None"
            and user_message = "''fix projects/demo/app.py please''"
            and res = "fst ?s" and ?w2.0 = "snd ?s"] e p s
  have "\<exists>loaded. adds_fresh demo_world (snd ?e) loaded \<and> distinct (map fst loaded)"
    and "\<exists>loaded. adds_fresh demo_world (snd ?p) loaded \<and> distinct (map fst loaded)"
    and "\<exists>loaded. adds_fresh demo_world (snd ?s) loaded \<and> distinct (map fst loaded)"
    by blast+
  with demo_ensure_twice demo_turn_history demo_preload_twice(2) show ?thesis by blast
qed

text \<open>
  The claim as stated fails on \<open>create_file\<close>, which appends the content message every
  time: a file created twice, and a file patched after it was loaded, are each framed
  twice under the same canonical path.
\<close>

theorem create_file_frames_again_counterexample:
  "filter (carries_marker ''/home/u/projects/demo/a.txt'')
     (conversation_history (snd (create_file ''a.txt'' ''two'' demo_dir
        (snd (create_file ''a.txt'' ''one'' demo_dir demo_world))))) =
     [frame ''/home/u/projects/demo/a.txt'' ''one'', frame ''/home/u/projects/demo/a.txt'' ''two''] \<and>
   filter (carries_marker ''/home/u/projects/demo/app.py'')
     (conversation_history (snd (apply_diff_edit ''app.py'' ''x = 1'' ''y'' demo_dir
        (snd (ensure_file_in_context ''projects/demo/app.py'' demo_world))))) =
     [frame ''/home/u/projects/demo/app.py'' ''x = 1; x = 1'',
      frame ''/home/u/projects/demo/app.py'' ''y; x = 1'']"
  by code_simp

end
